theory Spec2Isabelle
  imports
    Main
    "HOL-Library.AList"
    "HOL-Library.Char_ord"
    "HOL-Library.List_Lexorder"
begin

section \<open>Python exceptions, dictionaries and sorting\<close>

text \<open>
  The exceptions that matter: the API client's \<^verbatim>\<open>RequestError\<close>, Python's own
  \<^verbatim>\<open>KeyError\<close>, \<^verbatim>\<open>TypeError\<close> and \<^verbatim>\<open>AttributeError\<close>, the \<^verbatim>\<open>InvalidVersion\<close> of
  \<^verbatim>\<open>packaging\<close>, and any other one.
\<close>

datatype exn = RequestError | KeyError | TypeError | AttributeError | InvalidVersion | OtherError

text \<open>
  A Python \<^verbatim>\<open>dict\<close> keeps its entries in insertion order and holds every key once.
  It is modelled by the list of its items: storing under a key that is already there
  replaces the value and keeps the place, storing under a new key appends
  (\<^const>\<open>AList.update\<close> does exactly that).  A dict comprehension
  \<^verbatim>\<open>{k: v for k, v in items}\<close> stores the items one after the other, starting from
  the empty dict.
\<close>

type_synonym ('k, 'v) dict = "('k \<times> 'v) list"

definition dict_of :: "('k \<times> 'v) list \<Rightarrow> ('k, 'v) dict" where
  "dict_of items = foldl (\<lambda>d (k, v). AList.update k v d) [] items"

definition dict_keys :: "('k, 'v) dict \<Rightarrow> 'k list" where
  "dict_keys d = map fst d"

definition dict_values :: "('k, 'v) dict \<Rightarrow> 'v list" where
  "dict_values d = map snd d"

text \<open>\<^verbatim>\<open>next(iter(xs), None)\<close>: the first element, or \<^verbatim>\<open>None\<close> when there is none.\<close>

definition next_iter :: "'a list \<Rightarrow> 'a option" where
  "next_iter xs = (case xs of [] \<Rightarrow> None | x # _ \<Rightarrow> Some x)"

text \<open>
  \<^verbatim>\<open>sorted(xs, key=f)\<close> compares the keys of the elements with \<^verbatim>\<open><\<close>, which the class
  of the keys may not define.  The comparison is a parameter that gives \<open>None\<close> where
  \<^verbatim>\<open><\<close> raises \<^verbatim>\<open>TypeError\<close>: \<open>total_lt\<close> is the \<^verbatim>\<open><\<close> of strings and numbers, \<open>no_lt\<close>
  the one of objects whose class defines no order.  The sort is stable, and a list of
  fewer than two elements is sorted without any comparison.
\<close>

definition total_lt :: "'a::linorder \<Rightarrow> 'a \<Rightarrow> bool option" where
  "total_lt a b = Some (a < b)"

definition no_lt :: "'a \<Rightarrow> 'a \<Rightarrow> bool option" where
  "no_lt a b = None"

fun py_insort :: "('k \<Rightarrow> 'k \<Rightarrow> bool option) \<Rightarrow> ('a \<Rightarrow> 'k) \<Rightarrow> 'a \<Rightarrow> 'a list \<Rightarrow> exn + 'a list" where
  "py_insort lt key x [] = Inr [x]"
| "py_insort lt key x (y # ys) =
     (case lt (key y) (key x) of
        None \<Rightarrow> Inl TypeError
      | Some True \<Rightarrow> (case py_insort lt key x ys of Inl e \<Rightarrow> Inl e | Inr zs \<Rightarrow> Inr (y # zs))
      | Some False \<Rightarrow> Inr (x # y # ys))"

fun py_sorted :: "('k \<Rightarrow> 'k \<Rightarrow> bool option) \<Rightarrow> ('a \<Rightarrow> 'k) \<Rightarrow> 'a list \<Rightarrow> exn + 'a list" where
  "py_sorted lt key [] = Inr []"
| "py_sorted lt key (x # xs) =
     (case py_sorted lt key xs of Inl e \<Rightarrow> Inl e | Inr ys \<Rightarrow> py_insort lt key x ys)"

section \<open>Picking a member of a result set\<close>

text \<open>
  \<^verbatim>\<open>
  def min_hash_value_by_value(x):
      return next(
          iter(list({k: v for k, v in sorted(x.items(), key=lambda item: item[1])}.values())),
          None,
      )

  def min_hash_value_by_key(x):
      return next(
          iter(list({k: v for k, v in sorted(x.items(), key=lambda item: item[0])}.values())),
          None,
      )
  \<close>
  The first sorts the items by their values, the second by their keys; the first
  parameter is the \<^verbatim>\<open><\<close> of what is compared.
\<close>

definition min_hash_value_by_value ::
  "('v \<Rightarrow> 'v \<Rightarrow> bool option) \<Rightarrow> ('k, 'v) dict \<Rightarrow> exn + 'v option" where
  "min_hash_value_by_value lt x =
     (case py_sorted lt snd x of
        Inl e \<Rightarrow> Inl e
      | Inr items \<Rightarrow> Inr (next_iter (dict_values (dict_of items))))"

definition min_hash_value_by_key ::
  "('k \<Rightarrow> 'k \<Rightarrow> bool option) \<Rightarrow> ('k, 'v) dict \<Rightarrow> exn + 'v option" where
  "min_hash_value_by_key lt x =
     (case py_sorted lt fst x of
        Inl e \<Rightarrow> Inl e
      | Inr items \<Rightarrow> Inr (next_iter (dict_values (dict_of items))))"

text \<open>
  The payload of a device type that is created (the \<^verbatim>\<open>DEVICE TYPES\<close> block of
  \<^verbatim>\<open>main\<close>):
  \<^verbatim>\<open>
  manuf = min_hash_value_by_value(manufacturers)
  nb.dcim.device_types.create(
      {"model": deviceTypeModel, "slug": slugify(deviceTypeModel),
       "manufacturer": manuf.id if manuf else None})
  \<close>
  The values of \<^verbatim>\<open>manufacturers\<close> are the resource handles of the API client.
  \<open>slugify\<close>, the \<open>id\<close> of a handle and the \<^verbatim>\<open><\<close> of handles belong to libraries and are
  parameters.
\<close>

record device_type_payload =
  dt_model :: string
  dt_slug :: string
  dt_manufacturer :: "nat option"

definition device_type_create_payload ::
  "(string \<Rightarrow> string) \<Rightarrow> ('h \<Rightarrow> nat) \<Rightarrow> ('h \<Rightarrow> 'h \<Rightarrow> bool option) \<Rightarrow> (string, 'h) dict \<Rightarrow> string \<Rightarrow>
   exn + device_type_payload" where
  "device_type_create_payload slugify_fn id_of handle_lt manufacturers_dict deviceTypeModel =
     (case min_hash_value_by_value handle_lt manufacturers_dict of
        Inl e \<Rightarrow> Inl e
      | Inr manuf \<Rightarrow>
          Inr \<lparr> dt_model = deviceTypeModel,
                dt_slug = slugify_fn deviceTypeModel,
                dt_manufacturer = (case manuf of Some m \<Rightarrow> Some (id_of m) | None \<Rightarrow> None) \<rparr>)"

section \<open>Command line, file system, paths\<close>

text \<open>
  The parsed command line (\<^verbatim>\<open>args\<close>), with the options the modelled phases read.
  A string is true in a Python condition when it is not empty.
\<close>

record args =
  wait :: bool
  netboxSites :: "string list"
  defaultGroupName :: string
  staffGroupName :: string
  manufacturers :: "string list"
  roles :: "string list"
  deviceTypes :: "string list"
  netboxDir :: string
  libraryDir :: string
  preloadDir :: string
  preloadBackupFile :: string

text \<open>
  What the program asks the file system: which paths are regular files and which are
  directories, \<^verbatim>\<open>glob.glob\<close> (the matches of a pattern, in the order the directory
  lists them) and \<^verbatim>\<open>os.path.getmtime\<close> (a time stamp; only its order matters).
  \<^verbatim>\<open>os.path.isfile\<close> and \<^verbatim>\<open>os.path.isdir\<close> are false for the empty path.
\<close>

record filesystem =
  file_at :: "string \<Rightarrow> bool"
  dir_at :: "string \<Rightarrow> bool"
  glob :: "string \<Rightarrow> string list"
  getmtime :: "string \<Rightarrow> int"

definition isfile :: "filesystem \<Rightarrow> string \<Rightarrow> bool" where
  "isfile fs p = (p \<noteq> [] \<and> file_at fs p)"

definition isdir :: "filesystem \<Rightarrow> string \<Rightarrow> bool" where
  "isdir fs p = (p \<noteq> [] \<and> dir_at fs p)"

definition endswith :: "string \<Rightarrow> string \<Rightarrow> bool" where
  "endswith s suffix = (length suffix \<le> length s \<and> drop (length s - length suffix) s = suffix)"

text \<open>\<^verbatim>\<open>os.path.join\<close> of two components (POSIX).\<close>

definition path_join :: "string \<Rightarrow> string \<Rightarrow> string" where
  "path_join a b =
     (if b \<noteq> [] \<and> hd b = CHR ''/'' then b
      else if a = [] \<or> last a = CHR ''/'' then a @ b
      else a @ ''/'' @ b)"

text \<open>
  \<^verbatim>\<open>str.rfind\<close> of a character, and \<^verbatim>\<open>os.path.splitext\<close>: the extension starts at
  the last dot of the last component, unless only dots precede that dot there.
\<close>

definition rfind :: "string \<Rightarrow> char \<Rightarrow> int" where
  "rfind p c =
     (if c \<in> set p then int (length p) - 1 - int (length (takeWhile (\<lambda>x. x \<noteq> c) (rev p)))
      else - 1)"

definition splitext :: "string \<Rightarrow> string \<times> string" where
  "splitext p =
     (let sepIndex = rfind p CHR ''/''; dotIndex = rfind p CHR ''.'' in
      if dotIndex > sepIndex \<and>
         list_ex (\<lambda>i. p ! i \<noteq> CHR ''.'') [nat (sepIndex + 1) ..< nat dotIndex]
      then (take (nat dotIndex) p, drop (nat dotIndex) p)
      else (p, []))"

section \<open>Choosing the backup to restore\<close>

text \<open>
  \<^verbatim>\<open>
  # if there is a database backup .gz in the preload directory, load it up (preferring the newest)
  # if there are multiple) instead of populating via API
  preloadDatabaseFile = args.preloadBackupFile
  preloadDatabaseSuccess = False
  if (not os.path.isfile(preloadDatabaseFile)) and os.path.isdir(args.preloadDir):
      preloadFiles = [
          x
          for x in list(filter(os.path.isfile, glob.glob(os.path.join(args.preloadDir, '*.gz'))))
          if not x.endswith('.media.tar.gz')
      ]
      preloadFiles.sort(key=lambda x: os.path.getmtime(x))
      preloadDatabaseFile = next(iter(preloadFiles), '')
  \<close>
  \<^verbatim>\<open>list.sort\<close> is stable and ascending.
\<close>

definition preload_candidates :: "filesystem \<Rightarrow> args \<Rightarrow> string list" where
  "preload_candidates fs a =
     filter (\<lambda>x. \<not> endswith x ''.media.tar.gz'')
       (filter (isfile fs) (glob fs (path_join (preloadDir a) ''*.gz'')))"

definition select_preload_file :: "filesystem \<Rightarrow> args \<Rightarrow> string" where
  "select_preload_file fs a =
     (let preloadDatabaseFile = preloadBackupFile a in
      if \<not> isfile fs preloadDatabaseFile \<and> isdir fs (preloadDir a) then
        (let preloadFiles = sort_key (getmtime fs) (preload_candidates fs a) in
         case next_iter preloadFiles of Some x \<Rightarrow> x | None \<Rightarrow> [])
      else preloadDatabaseFile)"

section \<open>The restore sequence\<close>

text \<open>
  The body of the \<^verbatim>\<open>try\<close> block that restores a backup is a sequence of external
  steps.  \<^verbatim>\<open>malcolm_utils.run_process\<close> and the file operations are outside this
  file: the environment says, for each step, whether it raises or which status and
  output lines it returns.
\<close>

datatype step =
    StopServices | DropDb | CreateDb | GrantPrivileges | ReadBackup | LoadBackup
  | MigrateVrf | TruncateUsers | StartServices | Pushd | MigrateCheck | ManageOp string
  | ReadSuperuserScript | SuperuserCreate | RestoreMedia

datatype outcome = Raises | Returns int "string list"

text \<open>
  The state of the block: the steps started so far, the steps whose failure was logged,
  the file whose content is fed to the load command (once that command is started), the
  flag \<^verbatim>\<open>preloadDatabaseSuccess\<close>, and whether an exception reached the handler.
\<close>

record restore_state =
  trace :: "step list"
  logged :: "step list"
  loaded_from :: "string option"
  preloadDatabaseSuccess :: bool
  caught :: bool

definition restore_initial :: restore_state where
  "restore_initial =
     \<lparr> trace = [], logged = [], loaded_from = None, preloadDatabaseSuccess = False,
       caught = False \<rparr>"

text \<open>
  \<open>run_step\<close> starts a step and hands its result to the rest of the block; a step that
  raises ends the block in its \<^verbatim>\<open>except Exception\<close> handler, which logs and goes on
  after the block.  \<open>raise_exception\<close> is a \<^verbatim>\<open>raise\<close> of the block itself.
\<close>

definition raise_exception :: "restore_state \<Rightarrow> restore_state" where
  "raise_exception st = st\<lparr>caught := True\<rparr>"

definition run_step ::
  "(step \<Rightarrow> outcome) \<Rightarrow> step \<Rightarrow> restore_state \<Rightarrow>
   (int \<Rightarrow> string list \<Rightarrow> restore_state \<Rightarrow> restore_state) \<Rightarrow> restore_state" where
  "run_step env s st k =
     (let st' = st\<lparr>trace := trace st @ [s]\<rparr> in
      case env s of
        Raises \<Rightarrow> raise_exception st'
      | Returns err results \<Rightarrow> k err results st')"

definition log_if :: "bool \<Rightarrow> step \<Rightarrow> restore_state \<Rightarrow> restore_state" where
  "log_if c s st = (if c then st\<lparr>logged := logged st @ [s]\<rparr> else st)"

definition manage_operations :: "string list" where
  "manage_operations =
     [''migrate'', ''trace_paths'', ''remove_stale_contenttypes'', ''clearsessions'', ''reindex'']"

fun run_manage_operations ::
  "(step \<Rightarrow> outcome) \<Rightarrow> string list \<Rightarrow> restore_state \<Rightarrow>
   (restore_state \<Rightarrow> restore_state) \<Rightarrow> restore_state" where
  "run_manage_operations env [] st k = k st"
| "run_manage_operations env (operation # rest) st k =
     run_step env (ManageOp operation) st (\<lambda>err results st.
       run_manage_operations env rest
         (log_if (err \<noteq> 0 \<or> results = []) (ManageOp operation) st) k)"

text \<open>
  The media archive is restored in a \<^verbatim>\<open>try\<close> of its own: what it raises is logged
  there and does not reach the handler of the block.
\<close>

definition media_file_name :: "string \<Rightarrow> string" where
  "media_file_name preloadDatabaseFile = fst (splitext preloadDatabaseFile) @ ''.media.tar.gz''"

definition media_path :: "args \<Rightarrow> string" where
  "media_path a = path_join (netboxDir a) (path_join ''netbox'' ''media'')"

definition restore_media ::
  "(step \<Rightarrow> outcome) \<Rightarrow> filesystem \<Rightarrow> args \<Rightarrow> string \<Rightarrow> restore_state \<Rightarrow> restore_state" where
  "restore_media env fs a preloadDatabaseFile st =
     (if isfile fs (media_file_name preloadDatabaseFile) \<and> isdir fs (media_path a) then
        (let st' = st\<lparr>trace := trace st @ [RestoreMedia]\<rparr> in
         case env RestoreMedia of
           Raises \<Rightarrow> log_if True RestoreMedia st'
         | Returns err results \<Rightarrow> st')
      else st)"

text \<open>
  The steps of the block after the dump is loaded, and the block from its start.  The
  flag \<^verbatim>\<open>preloadDatabaseSuccess\<close> is set between the two, right after the load, whose
  input is what was read from \<^verbatim>\<open>preloadDatabaseFile\<close>:
  \<^verbatim>\<open>
  with (
      gzip.open(preloadDatabaseFile, 'rt')
      if 'application/gzip' in magic.from_file(preloadDatabaseFile, mime=True)
      else open(preloadDatabaseFile, 'r')
  ) as f:
      err, results = malcolm_utils.run_process(cmd, env=osEnv, logger=logging, stdin=f.read())
  if (err == 0) and results:
      preloadDatabaseSuccess = True
  else:
      raise Exception(f'Error {err} loading NetBox database: {results}')
  \<close>
\<close>

definition after_load ::
  "(step \<Rightarrow> outcome) \<Rightarrow> filesystem \<Rightarrow> args \<Rightarrow> string \<Rightarrow> restore_state \<Rightarrow> restore_state" where
  "after_load env fs a preloadDatabaseFile st0 =
     run_step env MigrateVrf st0 (\<lambda>err results st.
     run_step env TruncateUsers (log_if (err \<noteq> 0) MigrateVrf st) (\<lambda>err results st.
     run_step env StartServices (log_if (err \<noteq> 0) TruncateUsers st) (\<lambda>err results st.
     run_step env Pushd (log_if (err \<noteq> 0) StartServices st) (\<lambda>_ _ st.
     run_step env MigrateCheck st (\<lambda>err results st.
     run_manage_operations env (if err \<noteq> 0 then manage_operations else []) st (\<lambda>st.
     run_step env ReadSuperuserScript st (\<lambda>_ _ st.
     run_step env SuperuserCreate st (\<lambda>err results st.
     restore_media env fs a preloadDatabaseFile
       (log_if (err \<noteq> 0 \<or> results = []) SuperuserCreate st)))))))))"

definition restore ::
  "(step \<Rightarrow> outcome) \<Rightarrow> filesystem \<Rightarrow> args \<Rightarrow> string \<Rightarrow> restore_state" where
  "restore env fs a preloadDatabaseFile =
     run_step env StopServices restore_initial (\<lambda>err results st.
     run_step env DropDb (log_if (err \<noteq> 0) StopServices st) (\<lambda>err results st.
     run_step env CreateDb (log_if (err \<noteq> 0) DropDb st) (\<lambda>err results st.
       if err \<noteq> 0 then raise_exception st else
     run_step env GrantPrivileges st (\<lambda>err results st.
     run_step env ReadBackup (log_if (err \<noteq> 0) GrantPrivileges st) (\<lambda>_ _ st.
     run_step env LoadBackup (st\<lparr>loaded_from := Some preloadDatabaseFile\<rparr>) (\<lambda>err results st.
       if err = 0 \<and> results \<noteq> []
       then after_load env fs a preloadDatabaseFile (st\<lparr>preloadDatabaseSuccess := True\<rparr>)
       else raise_exception st))))))"

text \<open>The load step completed: it returned status 0 and some output.\<close>

fun load_completed :: "outcome \<Rightarrow> bool" where
  "load_completed Raises = False"
| "load_completed (Returns err results) = (err = 0 \<and> results \<noteq> [])"

text \<open>
  The steps before the load let the block reach it: stopping the services, dropping the
  database, granting the privileges and reading the dump return, and creating the
  database returns status 0.
\<close>

fun returned :: "outcome \<Rightarrow> bool" where
  "returned Raises = False"
| "returned (Returns err results) = True"

fun returned_zero :: "outcome \<Rightarrow> bool" where
  "returned_zero Raises = False"
| "returned_zero (Returns err results) = (err = 0)"

definition reaches_load :: "(step \<Rightarrow> outcome) \<Rightarrow> bool" where
  "reaches_load env =
     (returned (env StopServices) \<and> returned (env DropDb) \<and> returned_zero (env CreateDb)
      \<and> returned (env GrantPrivileges) \<and> returned (env ReadBackup))"

section \<open>The remote API\<close>

text \<open>
  The resource kinds of the catalogue, in the order \<^verbatim>\<open>main\<close> reconciles them.
\<close>

datatype kind = Groups | Permissions | Manufacturers | Roles | DeviceTypes | Sites

datatype payload =
    GroupPayload string
  | PermissionPayload string "nat list" "string list" "string list"
  | ManufacturerPayload string string
  | RolePayload string string string
  | DeviceTypePayload device_type_payload
  | SitePayload string string

text \<open>
  What the server answers to a \<^verbatim>\<open>create\<close>: the handle of the new resource, a rejection
  (\<^verbatim>\<open>pynetbox.RequestError\<close>), or nothing (any other exception).
\<close>

datatype 'h reply = Created 'h | Rejected | Unreachable

text \<open>
  The API client and the helper libraries are outside this file.  They are parameters:
  whether the \<open>n\<close>-th call of the run reaches the server (\<open>up\<close>), the server's answer
  to a \<^verbatim>\<open>create\<close> and to a prefix \<^verbatim>\<open>update\<close>, the \<^verbatim>\<open>.id\<close> and the natural key
  (\<^verbatim>\<open>.name\<close>, \<^verbatim>\<open>.model\<close> for a device type) of a resource handle, the names of the
  object types, \<^verbatim>\<open>slugify\<close>, and the colour drawn for the \<open>i\<close>-th role created.
  The \<^verbatim>\<open><\<close> of resource handles (\<open>h_lt\<close>) is a parameter as well.
\<close>

record 'h netbox =
  up :: "nat \<Rightarrow> bool"
  create_reply :: "nat \<Rightarrow> kind \<Rightarrow> 'h list \<Rightarrow> payload \<Rightarrow> 'h reply"
  update_ok :: "nat \<Rightarrow> bool"
  h_id :: "'h \<Rightarrow> nat"
  h_key :: "'h \<Rightarrow> string"
  h_lt :: "'h \<Rightarrow> 'h \<Rightarrow> bool option"
  object_type_names :: "string list"
  slugify :: "string \<Rightarrow> string"
  rand_color :: "nat \<Rightarrow> string"

record prefix =
  description :: string
  vrf :: "string option"

datatype log_entry =
    ErrorProcessing kind
  | WarningProcessing kind string
  | ErrorMigratingPrefixes
  | InfoRetrying

text \<open>
  The state of the run on the API side: the resources of each kind and the prefixes on
  the server, the number of API calls made so far, the seconds slept, and the log.
  Nothing but this run changes the server while it runs.
\<close>

record 'h world =
  resources :: "kind \<Rightarrow> 'h list"
  prefixes :: "prefix list"
  calls :: nat
  slept :: nat
  log :: "log_entry list"

definition tick :: "'h world \<Rightarrow> 'h world" where
  "tick w = w\<lparr>calls := Suc (calls w)\<rparr>"

definition add_log :: "log_entry \<Rightarrow> 'h world \<Rightarrow> 'h world" where
  "add_log e w = w\<lparr>log := log w @ [e]\<rparr>"

definition sleep :: "nat \<Rightarrow> 'h world \<Rightarrow> 'h world" where
  "sleep n w = w\<lparr>slept := slept w + n\<rparr>"

text \<open>\<^verbatim>\<open>endpoint.all()\<close>, read to the end; \<^verbatim>\<open>nb.extras.object_types.all()\<close>.\<close>

definition api_all :: "'h netbox \<Rightarrow> kind \<Rightarrow> 'h world \<Rightarrow> (exn + 'h list) \<times> 'h world" where
  "api_all nb k w = (if up nb (calls w) then Inr (resources w k) else Inl OtherError, tick w)"

definition api_object_types :: "'h netbox \<Rightarrow> 'h world \<Rightarrow> (exn + string list) \<times> 'h world" where
  "api_object_types nb w =
     (if up nb (calls w) then Inr (object_type_names nb) else Inl OtherError, tick w)"

definition api_create ::
  "'h netbox \<Rightarrow> kind \<Rightarrow> payload \<Rightarrow> 'h world \<Rightarrow> (exn + 'h) \<times> 'h world" where
  "api_create nb k p w =
     (case create_reply nb (calls w) k (resources w k) p of
        Created h \<Rightarrow> (Inr h, tick (w\<lparr>resources := (resources w)(k := resources w k @ [h])\<rparr>))
      | Rejected \<Rightarrow> (Inl RequestError, tick w)
      | Unreachable \<Rightarrow> (Inl OtherError, tick w))"

section \<open>The resource reconciler\<close>

text \<open>
  \<^verbatim>\<open>
  # wait for a good connection
  while args.wait:
      try:
          [x.name for x in nb.dcim.sites.all()]
          break
      except Exception as e:
          logging.info(f"{type(e).__name__}: {e}")
          logging.debug("retrying in a few seconds...")
          time.sleep(5)
  \<close>
  The loop may run forever: it is a partial function, \<open>None\<close> when it does not return.
\<close>

partial_function (option) wait_for_connection :: "'h netbox \<Rightarrow> 'h world \<Rightarrow> 'h world option" where
  "wait_for_connection nb w =
     (if up nb (calls w) then Some (tick w)
      else wait_for_connection nb (sleep 5 (add_log InfoRetrying (tick w))))"

declare wait_for_connection.simps [code]

definition connectivity_gate :: "'h netbox \<Rightarrow> args \<Rightarrow> 'h world \<Rightarrow> 'h world option" where
  "connectivity_gate nb a w = (if wait a then wait_for_connection nb w else Some w)"

text \<open>
  The loop of a block over the names to create.  The payload of an item is built just
  before its \<^verbatim>\<open>create\<close>; building it may raise (a \<^verbatim>\<open>KeyError\<close> in the permissions).
  A \<^verbatim>\<open>RequestError\<close> of a \<^verbatim>\<open>create\<close> is logged as a warning and the loop goes on; any
  other exception leaves the loop and the block.
\<close>

fun create_each ::
  "'h netbox \<Rightarrow> kind \<Rightarrow> (string \<times> (exn + payload)) list \<Rightarrow> 'h world \<Rightarrow> exn option \<times> 'h world" where
  "create_each nb k [] w = (None, w)"
| "create_each nb k ((name, Inl e) # rest) w = (Some e, w)"
| "create_each nb k ((name, Inr p) # rest) w =
     (case api_create nb k p w of
        (Inr h, w') \<Rightarrow> create_each nb k rest w'
      | (Inl RequestError, w') \<Rightarrow> create_each nb k rest (add_log (WarningProcessing k name) w')
      | (Inl e, w') \<Rightarrow> (Some e, w'))"

definition by_key :: "'h netbox \<Rightarrow> 'h list \<Rightarrow> (string, 'h) dict" where
  "by_key nb xs = dict_of (map (\<lambda>x. (h_key nb x, x)) xs)"

text \<open>
  One block of the reconciler, for example
  \<^verbatim>\<open>
  try:
      manufacturersPreExisting = {x.name: x for x in nb.dcim.manufacturers.all()}
      # create manufacturers that don't already exist
      for manufacturerName in [x for x in args.manufacturers if x not in manufacturersPreExisting]:
          try:
              nb.dcim.manufacturers.create({"name": manufacturerName, "slug": slugify(manufacturerName)})
          except pynetbox.RequestError as nbe:
              logging.warning(...)
      manufacturers = {x.name: x for x in nb.dcim.manufacturers.all()}
  except Exception as e:
      logging.error(f"{type(e).__name__} processing manufacturers: {e}")
  \<close>
  The result variable of a block starts as the empty dict and is assigned at the end
  of the block only.
\<close>

definition reconcile_kind ::
  "'h netbox \<Rightarrow> kind \<Rightarrow> string list \<Rightarrow> (string list \<Rightarrow> (string \<times> (exn + payload)) list) \<Rightarrow>
   'h world \<Rightarrow> (string, 'h) dict \<times> 'h world" where
  "reconcile_kind nb k desired payloads w =
     (case api_all nb k w of
        (Inl e, w1) \<Rightarrow> ([], add_log (ErrorProcessing k) w1)
      | (Inr existing, w1) \<Rightarrow>
          (let preExisting = by_key nb existing;
               missing = filter (\<lambda>x. x \<notin> set (dict_keys preExisting)) desired in
           case create_each nb k (payloads missing) w1 of
             (Some e, w2) \<Rightarrow> ([], add_log (ErrorProcessing k) w2)
           | (None, w2) \<Rightarrow>
               (case api_all nb k w2 of
                  (Inl e, w3) \<Rightarrow> ([], add_log (ErrorProcessing k) w3)
                | (Inr current, w3) \<Rightarrow> (by_key nb current, w3))))"

definition reconcile_groups :: "'h netbox \<Rightarrow> args \<Rightarrow> 'h world \<Rightarrow> (string, 'h) dict \<times> 'h world" where
  "reconcile_groups nb a w =
     reconcile_kind nb Groups [staffGroupName a, defaultGroupName a]
       (map (\<lambda>groupName. (groupName, Inr (GroupPayload groupName)))) w"

text \<open>
  The table \<^verbatim>\<open>DEFAULT_PERMISSIONS\<close>: a dict literal, so that equal group names leave one
  entry, the second one written.
\<close>

record permission_config =
  perm_name :: string
  perm_groups :: "string list"
  perm_actions :: "string list"
  perm_exclude_objects :: "string list"

definition DEFAULT_PERMISSIONS :: "args \<Rightarrow> (string, permission_config) dict" where
  "DEFAULT_PERMISSIONS a = dict_of
     [(staffGroupName a @ ''_permission'',
       \<lparr> perm_name = staffGroupName a @ ''_permission'',
         perm_groups = [staffGroupName a],
         perm_actions = [''view'', ''add'', ''change'', ''delete''],
         perm_exclude_objects = [] \<rparr>),
      (defaultGroupName a @ ''_permission'',
       \<lparr> perm_name = defaultGroupName a @ ''_permission'',
         perm_groups = [defaultGroupName a],
         perm_actions = [''view'', ''add'', ''change'', ''delete''],
         perm_exclude_objects =
           [''admin.logentry'', ''auth.group'', ''auth.permission'', ''auth.user'',
            ''users.admingroup'', ''users.adminuser'', ''users.objectpermission'',
            ''users.token'', ''users.userconfig''] \<rparr>)]"

text \<open>\<^verbatim>\<open>[groups[x].id for x in permConfig['groups']]\<close>: a missing group is a \<^verbatim>\<open>KeyError\<close>.\<close>

fun group_ids :: "'h netbox \<Rightarrow> (string, 'h) dict \<Rightarrow> string list \<Rightarrow> exn + nat list" where
  "group_ids nb groups [] = Inr []"
| "group_ids nb groups (x # xs) =
     (case map_of groups x of
        None \<Rightarrow> Inl KeyError
      | Some g \<Rightarrow> (case group_ids nb groups xs of Inl e \<Rightarrow> Inl e | Inr ids \<Rightarrow> Inr (h_id nb g # ids)))"

definition permission_payload ::
  "'h netbox \<Rightarrow> (string, 'h) dict \<Rightarrow> string list \<Rightarrow> permission_config \<Rightarrow> exn + payload" where
  "permission_payload nb groups allObjectTypeNames permConfig =
     (case group_ids nb groups (perm_groups permConfig) of
        Inl e \<Rightarrow> Inl e
      | Inr ids \<Rightarrow>
          Inr (PermissionPayload (perm_name permConfig) ids (perm_actions permConfig)
                (filter (\<lambda>ct. ct \<notin> set (perm_exclude_objects permConfig)) allObjectTypeNames)))"

definition reconcile_permissions ::
  "'h netbox \<Rightarrow> args \<Rightarrow> (string, 'h) dict \<Rightarrow> 'h world \<Rightarrow> (string, 'h) dict \<times> 'h world" where
  "reconcile_permissions nb a groups w =
     (case api_object_types nb w of
        (Inl e, w0) \<Rightarrow> ([], add_log (ErrorProcessing Permissions) w0)
      | (Inr allObjectTypeNames, w0) \<Rightarrow>
     (case api_all nb Permissions w0 of
        (Inl e, w1) \<Rightarrow> ([], add_log (ErrorProcessing Permissions) w1)
      | (Inr existing, w1) \<Rightarrow>
          (let permsPreExisting = by_key nb existing;
               missing = dict_of (filter
                 (\<lambda>(k, v). perm_name v \<noteq> [] \<and> perm_name v \<notin> set (dict_keys permsPreExisting))
                 (DEFAULT_PERMISSIONS a)) in
           case create_each nb Permissions
                  (map (\<lambda>(permName, permConfig).
                     (perm_name permConfig, permission_payload nb groups allObjectTypeNames permConfig))
                     missing) w1 of
             (Some e, w2) \<Rightarrow> ([], add_log (ErrorProcessing Permissions) w2)
           | (None, w2) \<Rightarrow>
               (case api_all nb Permissions w2 of
                  (Inl e, w3) \<Rightarrow> ([], add_log (ErrorProcessing Permissions) w3)
                | (Inr current, w3) \<Rightarrow> (by_key nb current, w3)))))"

definition reconcile_manufacturers ::
  "'h netbox \<Rightarrow> args \<Rightarrow> 'h world \<Rightarrow> (string, 'h) dict \<times> 'h world" where
  "reconcile_manufacturers nb a w =
     reconcile_kind nb Manufacturers (manufacturers a)
       (map (\<lambda>manufacturerName.
          (manufacturerName, Inr (ManufacturerPayload manufacturerName (slugify nb manufacturerName))))) w"

definition reconcile_roles :: "'h netbox \<Rightarrow> args \<Rightarrow> 'h world \<Rightarrow> (string, 'h) dict \<times> 'h world" where
  "reconcile_roles nb a w =
     reconcile_kind nb Roles (roles a)
       (\<lambda>missing. map (\<lambda>(i, roleName).
          (roleName, Inr (RolePayload roleName (slugify nb roleName) (rand_color nb i))))
          (enumerate 0 missing)) w"

text \<open>
  The device types.  \<^verbatim>\<open>min_hash_value_by_value(manufacturers)\<close> is called for each
  device type to create, inside the \<^verbatim>\<open>try\<close> that catches \<^verbatim>\<open>RequestError\<close> only: a
  \<^verbatim>\<open>TypeError\<close> of the sort leaves the loop and the block.
\<close>

definition reconcile_device_types ::
  "'h netbox \<Rightarrow> args \<Rightarrow> (string, 'h) dict \<Rightarrow> 'h world \<Rightarrow> (string, 'h) dict \<times> 'h world" where
  "reconcile_device_types nb a manufs w =
     reconcile_kind nb DeviceTypes (deviceTypes a)
       (map (\<lambda>deviceTypeModel.
          (deviceTypeModel,
           case device_type_create_payload (slugify nb) (h_id nb) (h_lt nb) manufs deviceTypeModel of
             Inl e \<Rightarrow> Inl e
           | Inr d \<Rightarrow> Inr (DeviceTypePayload d)))) w"

definition reconcile_sites :: "'h netbox \<Rightarrow> args \<Rightarrow> 'h world \<Rightarrow> (string, 'h) dict \<times> 'h world" where
  "reconcile_sites nb a w =
     reconcile_kind nb Sites (netboxSites a)
       (map (\<lambda>siteName. (siteName, Inr (SitePayload siteName (slugify nb siteName))))) w"

text \<open>
  \<^verbatim>\<open>
  try:
      for prefix in [x for x in nb.ipam.prefixes.filter(description__empty=True) if x.vrf]:
          prefix.update({"description": str(prefix.vrf)})
  except Exception as e:
      logging.error(...)
  \<close>
  The list is read first (one call), then each selected prefix is updated (one call
  each); the first exception ends the pass.
\<close>

fun update_prefixes :: "'h netbox \<Rightarrow> prefix list \<Rightarrow> nat \<Rightarrow> prefix list \<times> nat \<times> bool" where
  "update_prefixes nb [] n = ([], n, False)"
| "update_prefixes nb (p # ps) n =
     (if description p = [] \<and> vrf p \<noteq> None then
        (if up nb n \<and> update_ok nb n then
           (case update_prefixes nb ps (Suc n) of
              (ps', n', raised) \<Rightarrow> (p\<lparr>description := the (vrf p)\<rparr> # ps', n', raised))
         else (p # ps, Suc n, True))
      else
        (case update_prefixes nb ps n of (ps', n', raised) \<Rightarrow> (p # ps', n', raised)))"

definition migrate_prefixes :: "'h netbox \<Rightarrow> 'h world \<Rightarrow> 'h world" where
  "migrate_prefixes nb w =
     (if up nb (calls w) then
        (case update_prefixes nb (prefixes w) (Suc (calls w)) of
           (ps', n', raised) \<Rightarrow>
             (let w' = w\<lparr>prefixes := ps', calls := n'\<rparr> in
              if raised then add_log ErrorMigratingPrefixes w' else w'))
      else add_log ErrorMigratingPrefixes (tick w))"

text \<open>The blocks in the order of \<^verbatim>\<open>main\<close>, after the connection is there.\<close>

definition reconcile_all :: "'h netbox \<Rightarrow> args \<Rightarrow> 'h world \<Rightarrow> 'h world" where
  "reconcile_all nb a w =
     (case reconcile_groups nb a w of (groups, w1) \<Rightarrow>
      case reconcile_permissions nb a groups w1 of (permissions, w2) \<Rightarrow>
      case reconcile_manufacturers nb a w2 of (manufs, w3) \<Rightarrow>
      case reconcile_roles nb a w3 of (role_dict, w4) \<Rightarrow>
      case reconcile_device_types nb a manufs w4 of (device_type_dict, w5) \<Rightarrow>
      case reconcile_sites nb a w5 of (sites, w6) \<Rightarrow>
      migrate_prefixes nb w6)"

definition reconciler :: "'h netbox \<Rightarrow> args \<Rightarrow> 'h world \<Rightarrow> 'h world option" where
  "reconciler nb a w =
     (case connectivity_gate nb a w of
        None \<Rightarrow> None
      | Some w0 \<Rightarrow> Some (reconcile_all nb a w0))"

section \<open>The phases of the program after the plugins\<close>

text \<open>
  \<^verbatim>\<open>main\<close> from the choice of the backup on: the restore block when the chosen file
  exists, the reconciler
  \<^verbatim>\<open>
  # only proceed to do the regular population if if we didn't preload a database backup, or
  #   if we attempted (and failed) but they didn't explicitly specify a backup file
  if not preloadDatabaseSuccess and (not args.preloadBackupFile):
  \<close>
  the initializers (\<^verbatim>\<open>load_initializer_data\<close>) when the interpreter, the manage
  script and the preload directory are there, and the device-type library import under
  the same condition as the reconciler.  The result is \<open>None\<close> when the program does
  not return.  The installation of the plugins, which comes first in \<^verbatim>\<open>main\<close> and
  shares no variable with these phases, is modelled on its own further down.
\<close>

record 'h main_result =
  restore_file :: "string option"
  restore_result :: restore_state
  reconciler_ran :: bool
  api :: "'h world"
  initializers_ran :: bool
  library_import_ran :: bool

definition netboxVenvPy :: "args \<Rightarrow> string" where
  "netboxVenvPy a = path_join (path_join (path_join (netboxDir a) ''venv'') ''bin'') ''python''"

definition manageScript :: "args \<Rightarrow> string" where
  "manageScript a = path_join (path_join (netboxDir a) ''netbox'') ''manage.py''"

text \<open>The restore block: entered when the chosen file exists.\<close>

definition restore_phase ::
  "filesystem \<Rightarrow> (step \<Rightarrow> outcome) \<Rightarrow> args \<Rightarrow> string option \<times> restore_state" where
  "restore_phase fs env a =
     (let preloadDatabaseFile = select_preload_file fs a in
      if isfile fs preloadDatabaseFile
      then (Some preloadDatabaseFile, restore env fs a preloadDatabaseFile)
      else (None, restore_initial))"

text \<open>The condition of the reconciler (and of the library import).\<close>

definition populate_via_api :: "filesystem \<Rightarrow> (step \<Rightarrow> outcome) \<Rightarrow> args \<Rightarrow> bool" where
  "populate_via_api fs env a =
     (\<not> preloadDatabaseSuccess (snd (restore_phase fs env a)) \<and> preloadBackupFile a = [])"

definition run_initializers :: "filesystem \<Rightarrow> args \<Rightarrow> bool" where
  "run_initializers fs a =
     (isfile fs (netboxVenvPy a) \<and> isfile fs (manageScript a) \<and> isdir fs (preloadDir a))"

definition finish ::
  "filesystem \<Rightarrow> (step \<Rightarrow> outcome) \<Rightarrow> args \<Rightarrow> 'h world \<Rightarrow> 'h main_result" where
  "finish fs env a w =
     \<lparr> restore_file = fst (restore_phase fs env a),
       restore_result = snd (restore_phase fs env a),
       reconciler_ran = populate_via_api fs env a,
       api = w,
       initializers_ran = run_initializers fs a,
       library_import_ran = (populate_via_api fs env a \<and> isdir fs (libraryDir a)) \<rparr>"

definition main ::
  "filesystem \<Rightarrow> (step \<Rightarrow> outcome) \<Rightarrow> 'h netbox \<Rightarrow> args \<Rightarrow> 'h world \<Rightarrow>
   'h main_result option" where
  "main fs env nb a w =
     (if populate_via_api fs env a then
        (case reconciler nb a w of
           None \<Rightarrow> None
         | Some w' \<Rightarrow> Some (finish fs env a w'))
      else Some (finish fs env a w))"

section \<open>Syntax trees of Python sources\<close>

text \<open>
  The part of Python's \<^verbatim>\<open>ast\<close> the plugin code looks at.  A constant is a string or
  something else; an expression is a name, a constant, a list display or anything else
  (an attribute such as \<^verbatim>\<open>module.PluginConfig\<close>, a call, ...); a statement is an
  assignment, a class definition, another compound statement with its blocks of
  statements, or anything else.
\<close>

datatype const = CStr string | CNonStr string

datatype expr =
    Name string
  | Constant const
  | ListExpr "expr list"
  | OtherExpr string

datatype stmt =
    Assign "expr list" expr
  | ClassDef string "expr list" "stmt list"
  | Compound string "stmt list list"
  | OtherStmt string

section \<open>Discovering plugin names\<close>

text \<open>
  \<^verbatim>\<open>
  for pluginInitFileName in results:
      try:
          if os.path.isfile(pluginInitFileName):
              with open(pluginInitFileName, 'r') as f:
                  node = ast.parse(f.read())
                  for c in [n for n in node.body if isinstance(n, ast.ClassDef)]:
                      if any([baseClass.id == 'PluginConfig' for baseClass in c.bases]):
                          for item in c.body:
                              if isinstance(item, ast.Assign):
                                  for target in item.targets:
                                      if isinstance(target, ast.Name) and target.id == 'name':
                                          if isinstance(item.value, ast.Constant):
                                              pluginNames.append(item.value.value)
      except Exception as e:
          logging.error(f"{type(e).__name__} identifying NetBox plugin names: {e}")
  \<close>
  Only an \<^verbatim>\<open>ast.Name\<close> has an \<^verbatim>\<open>id\<close>: the list \<^verbatim>\<open>[baseClass.id == ... ]\<close> is built
  in full before \<^verbatim>\<open>any\<close> looks at it, and building it raises \<^verbatim>\<open>AttributeError\<close> at
  the first base that is not a name.
\<close>

datatype source_file = NotAFile | Unreadable | Module "stmt list"

fun base_is_plugin_config :: "expr list \<Rightarrow> bool list option" where
  "base_is_plugin_config [] = Some []"
| "base_is_plugin_config (Name ident # bases) =
     (case base_is_plugin_config bases of
        None \<Rightarrow> None
      | Some bs \<Rightarrow> Some ((ident = ''PluginConfig'') # bs))"
| "base_is_plugin_config (_ # bases) = None"

fun name_constants :: "stmt \<Rightarrow> const list" where
  "name_constants (Assign targets item_value) =
     concat (map (\<lambda>target.
       (case target of
          Name ident \<Rightarrow>
            (if ident = ''name'' then (case item_value of Constant c \<Rightarrow> [c] | _ \<Rightarrow> []) else [])
        | _ \<Rightarrow> [])) targets)"
| "name_constants _ = []"

record scan_state =
  pluginNames :: "const list"
  errors_logged :: nat

fun scan_classes :: "stmt list \<Rightarrow> scan_state \<Rightarrow> scan_state" where
  "scan_classes [] st = st"
| "scan_classes (ClassDef cname bases body # rest) st =
     (case base_is_plugin_config bases of
        None \<Rightarrow> st\<lparr>errors_logged := Suc (errors_logged st)\<rparr>
      | Some bs \<Rightarrow>
          (if list_ex (\<lambda>b. b) bs
           then scan_classes rest
                  (st\<lparr>pluginNames := pluginNames st @ concat (map name_constants body)\<rparr>)
           else scan_classes rest st))"
| "scan_classes (_ # rest) st = scan_classes rest st"

definition scan_file :: "source_file \<Rightarrow> scan_state \<Rightarrow> scan_state" where
  "scan_file f st =
     (case f of
        NotAFile \<Rightarrow> st
      | Unreadable \<Rightarrow> st\<lparr>errors_logged := Suc (errors_logged st)\<rparr>
      | Module body \<Rightarrow> scan_classes body st)"

definition scan_files :: "source_file list \<Rightarrow> scan_state \<Rightarrow> scan_state" where
  "scan_files files st = foldl (\<lambda>st f. scan_file f st) st files"

section \<open>Registering plugin names\<close>

text \<open>
  \<^verbatim>\<open>
  class PluginListModifier(ast.NodeTransformer):
      def visit_Assign(self, node):
          global pluginsListFound
          if isinstance(node.targets[0], ast.Name) and node.targets[0].id == 'PLUGINS':
              pluginsListFound = True
              # Check if the node's value is a list
              if isinstance(node.value, ast.List):
                  # Get the existing plugin names in the list
                  existingPlugins = {elt.s for elt in node.value.elts if isinstance(elt, ast.Str)}
                  # Add new plugins if they aren't already in the list
                  for plugin in pluginNames:
                      if plugin not in existingPlugins:
                          node.value.elts.append(ast.Constant(value=plugin))
          return node
  \<close>
  \<^verbatim>\<open>ast.Str\<close> stands for the string constants.  An assignment of a parsed source has
  at least one target.
\<close>

fun string_constants :: "expr list \<Rightarrow> string list" where
  "string_constants [] = []"
| "string_constants (Constant (CStr s) # elts) = s # string_constants elts"
| "string_constants (_ # elts) = string_constants elts"

definition targets_plugins :: "expr list \<Rightarrow> bool" where
  "targets_plugins targets =
     (case targets of Name ident # _ \<Rightarrow> ident = ''PLUGINS'' | _ \<Rightarrow> False)"

definition visit_Assign :: "const list \<Rightarrow> expr list \<Rightarrow> expr \<Rightarrow> stmt" where
  "visit_Assign names targets node_value =
     (if targets_plugins targets then
        (case node_value of
           ListExpr elts \<Rightarrow>
             (let existingPlugins = map CStr (string_constants elts) in
              Assign targets
                (ListExpr (elts @ map Constant (filter (\<lambda>plugin. plugin \<notin> set existingPlugins) names))))
         | _ \<Rightarrow> Assign targets node_value)
      else Assign targets node_value)"

text \<open>
  \<^verbatim>\<open>NodeTransformer.visit\<close>: an assignment goes to \<^verbatim>\<open>visit_Assign\<close>, which does not
  descend; every other node is rebuilt from its visited children, so the assignments
  nested in classes and other compound statements are visited as well.
\<close>

fun visit :: "const list \<Rightarrow> stmt \<Rightarrow> stmt" where
  "visit names (Assign targets node_value) = visit_Assign names targets node_value"
| "visit names (ClassDef cname bases body) = ClassDef cname bases (map (visit names) body)"
| "visit names (Compound label blocks) = Compound label (map (map (visit names)) blocks)"
| "visit names (OtherStmt s) = OtherStmt s"

text \<open>The value of the module global \<^verbatim>\<open>pluginsListFound\<close> after the visit.\<close>

fun assigns_plugins :: "stmt \<Rightarrow> bool" where
  "assigns_plugins (Assign targets node_value) = targets_plugins targets"
| "assigns_plugins (ClassDef cname bases body) = list_ex assigns_plugins body"
| "assigns_plugins (Compound label blocks) = list_ex (list_ex assigns_plugins) blocks"
| "assigns_plugins (OtherStmt s) = False"

text \<open>
  \<^verbatim>\<open>
  pluginsListFound = False
  ...
  modifier = PluginListModifier()
  modifiedTree = modifier.visit(tree)
  # # If PLUGINS was not found, add it at the end of the module
  if not pluginsListFound:
      modifiedTree.body.append(
          ast.Assign(targets=[ast.Name(id='PLUGINS', ctx=ast.Store())],
                     value=ast.List(elts=[ast.Constant(value=plugin) for plugin in pluginNames], ...)))
  \<close>
  The \<^verbatim>\<open>pluginsListFound\<close> that \<^verbatim>\<open>main\<close> tests is its local variable, assigned
  \<^verbatim>\<open>False\<close> before the class; \<^verbatim>\<open>visit_Assign\<close> declares the name \<^verbatim>\<open>global\<close> and so
  assigns the variable of the module, not the one of \<^verbatim>\<open>main\<close>.  The result holds the
  new module body and the final value of the module's variable.
\<close>

definition update_plugins_tree :: "const list \<Rightarrow> stmt list \<Rightarrow> stmt list \<times> bool" where
  "update_plugins_tree names body =
     (let pluginsListFound = False;
          global_pluginsListFound = list_ex assigns_plugins body;
          modifiedTree = map (visit names) body
      in (if \<not> pluginsListFound
          then modifiedTree @ [Assign [Name ''PLUGINS''] (ListExpr (map Constant names))]
          else modifiedTree,
          global_pluginsListFound))"

text \<open>
  The file itself.  \<^verbatim>\<open>ast.parse\<close> keeps the statements and nothing of the comments
  or the layout; \<^verbatim>\<open>ast.unparse\<close> writes the statements of the tree.  A source is
  modelled by its top-level lines, each a comment or a statement.  The file is
  rewritten only when some plugin name was discovered (\<^verbatim>\<open>if pluginNames:\<close>); the names
  come deduplicated, in the order \<^verbatim>\<open>list(set(pluginNames))\<close> happens to give.
\<close>

datatype line = Comment string | Code stmt

fun ast_parse :: "line list \<Rightarrow> stmt list" where
  "ast_parse [] = []"
| "ast_parse (Comment c # ls) = ast_parse ls"
| "ast_parse (Code s # ls) = s # ast_parse ls"

definition ast_unparse :: "stmt list \<Rightarrow> line list" where
  "ast_unparse body = map Code body"

definition register_plugins :: "const list \<Rightarrow> line list \<Rightarrow> line list" where
  "register_plugins names source =
     (if names \<noteq> [] then ast_unparse (fst (update_plugins_tree names (ast_parse source)))
      else source)"

section \<open>The package install gate\<close>

text \<open>
  \<^verbatim>\<open>InstallPackageDirIfNeeded\<close>.  The dry run gives a status and maybe a report file;
  the report read by \<^verbatim>\<open>LoadFileIfJson\<close> is \<open>None\<close> when it is not a JSON object (then
  \<^verbatim>\<open>dryRunReport.get\<close> raises), else the items under \<^verbatim>\<open>install\<close>, each with the name
  and version \<^verbatim>\<open>deep_get\<close> finds in it (\<open>None\<close> when missing).
  \<^verbatim>\<open>packaging.version.Version\<close> is a parameter: it parses a string to a version, or
  raises, and versions are ordered.
  \<^verbatim>\<open>
  wouldInstallInfo = {
      deep_get(installItem, ['metadata', 'name']): deep_get(installItem, ['metadata', 'version'])
      for installItem in dryRunReport.get('install', [])
  }
  pluginNeedsInstall = any(
      [
          package_name
          for package_name, new_version in wouldInstallInfo.items()
          if (package_name not in preinstalledPackagesDict)
          or (Version(new_version) > Version(preinstalledPackagesDict[package_name]['version']))
      ]
  )
  \<close>
\<close>

record install_item =
  metadata_name :: "string option"
  metadata_version :: "string option"

definition wouldInstallInfo :: "install_item list \<Rightarrow> (string option, string option) dict" where
  "wouldInstallInfo items = dict_of (map (\<lambda>i. (metadata_name i, metadata_version i)) items)"

definition needs_newer ::
  "(string \<Rightarrow> 'v::linorder option) \<Rightarrow> (string, string) dict \<Rightarrow> string option \<Rightarrow> string option \<Rightarrow>
   exn + bool" where
  "needs_newer Version preinstalled package_name new_version =
     (case package_name of
        None \<Rightarrow> Inr True
      | Some n \<Rightarrow>
          (case map_of preinstalled n of
             None \<Rightarrow> Inr True
           | Some installed_version \<Rightarrow>
               (case new_version of
                  None \<Rightarrow> Inl TypeError
                | Some nv \<Rightarrow>
                    (case Version nv of
                       None \<Rightarrow> Inl InvalidVersion
                     | Some new \<Rightarrow>
                         (case Version installed_version of
                            None \<Rightarrow> Inl InvalidVersion
                          | Some old \<Rightarrow> Inr (new > old))))))"

fun names_needing_install ::
  "(string \<Rightarrow> 'v::linorder option) \<Rightarrow> (string, string) dict \<Rightarrow>
   (string option, string option) dict \<Rightarrow> exn + string option list" where
  "names_needing_install Version preinstalled [] = Inr []"
| "names_needing_install Version preinstalled ((package_name, new_version) # rest) =
     (case needs_newer Version preinstalled package_name new_version of
        Inl e \<Rightarrow> Inl e
      | Inr c \<Rightarrow>
          (case names_needing_install Version preinstalled rest of
             Inl e \<Rightarrow> Inl e
           | Inr ns \<Rightarrow> Inr (if c then package_name # ns else ns)))"

text \<open>Truth of a name in \<^verbatim>\<open>any\<close>: \<^verbatim>\<open>None\<close> and the empty string are false.\<close>

definition truthy :: "string option \<Rightarrow> bool" where
  "truthy x = (case x of None \<Rightarrow> False | Some s \<Rightarrow> s \<noteq> [])"

definition pluginNeedsInstall ::
  "(string \<Rightarrow> 'v::linorder option) \<Rightarrow> (string, string) dict \<Rightarrow> int \<Rightarrow> bool \<Rightarrow>
   install_item list option \<Rightarrow> exn + bool" where
  "pluginNeedsInstall Version preinstalled err report_isfile dryRunReport =
     (if err = 0 \<and> report_isfile then
        (case dryRunReport of
           None \<Rightarrow> Inl AttributeError
         | Some items \<Rightarrow>
             (case names_needing_install Version preinstalled (wouldInstallInfo items) of
                Inl e \<Rightarrow> Inl e
              | Inr names \<Rightarrow> Inr (list_ex truthy names)))
      else Inr True)"

definition InstallPackageDirIfNeeded ::
  "(string \<Rightarrow> 'v::linorder option) \<Rightarrow> (string, string) dict \<Rightarrow> int \<Rightarrow> bool \<Rightarrow>
   install_item list option \<Rightarrow> int \<Rightarrow> exn + bool" where
  "InstallPackageDirIfNeeded Version preinstalled err report_isfile dryRunReport install_err =
     (case pluginNeedsInstall Version preinstalled err report_isfile dryRunReport of
        Inl e \<Rightarrow> Inl e
      | Inr needed \<Rightarrow> Inr (if needed then install_err = 0 else False))"

text \<open>
  A version parser for the examples: the release segment of a version that is a dotted
  sequence of numbers, compared as \<^verbatim>\<open>packaging\<close> compares release segments (number by
  number, trailing zeros dropped); every other string is refused.
\<close>

definition digit_value :: "char \<Rightarrow> nat option" where
  "digit_value c =
     (if CHR ''0'' \<le> c \<and> c \<le> CHR ''9'' then Some (of_char c - of_char CHR ''0'') else None)"

fun number_value :: "nat \<Rightarrow> string \<Rightarrow> nat option" where
  "number_value acc [] = Some acc"
| "number_value acc (c # cs) =
     (case digit_value c of None \<Rightarrow> None | Some d \<Rightarrow> number_value (10 * acc + d) cs)"

fun split_dots :: "string \<Rightarrow> string \<Rightarrow> string list" where
  "split_dots cur [] = [rev cur]"
| "split_dots cur (c # cs) =
     (if c = CHR ''.'' then rev cur # split_dots [] cs else split_dots (c # cur) cs)"

fun numbers :: "string list \<Rightarrow> nat list option" where
  "numbers [] = Some []"
| "numbers (s # ss) =
     (if s = [] then None
      else (case number_value 0 s of
              None \<Rightarrow> None
            | Some n \<Rightarrow> (case numbers ss of None \<Rightarrow> None | Some ns \<Rightarrow> Some (n # ns))))"

definition release_version :: "string \<Rightarrow> nat list option" where
  "release_version s =
     (case numbers (split_dots [] s) of
        None \<Rightarrow> None
      | Some ns \<Rightarrow> Some (rev (dropWhile (\<lambda>n. n = 0) (rev ns))))"

section \<open>Example inputs\<close>

text \<open>
  A preload directory with two dumps and the media archive of the newer one, and the
  command line with its defaults, except that waiting is disabled.
\<close>

definition ex_fs :: filesystem where
  "ex_fs = \<lparr> file_at = (\<lambda>p. p = ''/opt/netbox-preload/old.gz'' \<or> p = ''/opt/netbox-preload/new.gz''
                          \<or> p = ''/opt/netbox-preload/new.media.tar.gz''),
            dir_at = (\<lambda>p. p = ''/opt/netbox-preload''),
            glob = (\<lambda>pattern. if pattern = ''/opt/netbox-preload/*.gz''
                      then [''/opt/netbox-preload/new.gz'', ''/opt/netbox-preload/new.media.tar.gz'',
                            ''/opt/netbox-preload/old.gz'']
                      else []),
            getmtime = (\<lambda>p. if p = ''/opt/netbox-preload/old.gz'' then 100 else 200) \<rparr>"

definition ex_args :: args where
  "ex_args = \<lparr> wait = False, netboxSites = [''default''], defaultGroupName = ''standard'',
     staffGroupName = ''administrator'', manufacturers = [''Unspecified''], roles = [''Unspecified''],
     deviceTypes = [''Unspecified''], netboxDir = ''/opt/netbox'',
     libraryDir = ''/opt/netbox-devicetype-library-import'',
     preloadDir = ''/opt/netbox-preload'', preloadBackupFile = [] \<rparr>"

text \<open>
  Environments of the restore block: every step succeeds; the database cannot be
  created; the load returns nothing.
\<close>

definition env_ok :: "step \<Rightarrow> outcome" where
  "env_ok s = Returns 0 [''ok'']"

definition env_createdb_fails :: "step \<Rightarrow> outcome" where
  "env_createdb_fails s = (if s = CreateDb then Returns 1 [] else Returns 0 [''ok''])"

definition env_load_empty :: "step \<Rightarrow> outcome" where
  "env_load_empty s = (if s = LoadBackup then Returns 0 [] else Returns 0 [''ok''])"

text \<open>
  A server whose resource handles are their names, which accepts every \<^verbatim>\<open>create\<close>,
  and an empty remote state.  As the records of the API client, the handles define no
  order.
\<close>

definition payload_key :: "payload \<Rightarrow> string" where
  "payload_key p =
     (case p of
        GroupPayload n \<Rightarrow> n
      | PermissionPayload n ids actions object_types \<Rightarrow> n
      | ManufacturerPayload n slug \<Rightarrow> n
      | RolePayload n slug colour \<Rightarrow> n
      | DeviceTypePayload d \<Rightarrow> dt_model d
      | SitePayload n slug \<Rightarrow> n)"

definition ex_nb :: "string netbox" where
  "ex_nb = \<lparr> up = (\<lambda>n. True),
            create_reply = (\<lambda>n k existing p. Created (payload_key p)),
            update_ok = (\<lambda>n. True),
            h_id = length,
            h_key = (\<lambda>h. h),
            h_lt = no_lt,
            object_type_names = [''dcim.device'', ''auth.user''],
            slugify = (\<lambda>s. s),
            rand_color = (\<lambda>i. ''ff0000'') \<rparr>"

definition ex_world :: "string world" where
  "ex_world = \<lparr> resources = (\<lambda>k. []), prefixes = [], calls = 0, slept = 0, log = [] \<rparr>"

text \<open>
  The names a block wants to exist, by kind: the two group names, the keys of
  \<^verbatim>\<open>DEFAULT_PERMISSIONS\<close>, and the lists of the command line.
\<close>

definition desired_names :: "args \<Rightarrow> kind \<Rightarrow> string list" where
  "desired_names a k =
     (case k of
        Groups \<Rightarrow> [staffGroupName a, defaultGroupName a]
      | Permissions \<Rightarrow> dict_keys (DEFAULT_PERMISSIONS a)
      | Manufacturers \<Rightarrow> manufacturers a
      | Roles \<Rightarrow> roles a
      | DeviceTypes \<Rightarrow> deviceTypes a
      | Sites \<Rightarrow> netboxSites a)"




text \<open>
  Words of the claims about the scan: an expression is a simple name; every base of a
  class definition is one (true of a statement that is not a class definition).
\<close>

fun is_name :: "expr \<Rightarrow> bool" where
  "is_name (Name ident) = True"
| "is_name _ = False"

fun simple_bases :: "stmt \<Rightarrow> bool" where
  "simple_bases (ClassDef cname bases body) = list_all is_name bases"
| "simple_bases _ = True"

text \<open>
  A plugin file with three classes: a plugin, a class with the dotted base
  \<^verbatim>\<open>module.PluginConfig\<close>, and another plugin.
\<close>

definition plugin_class :: "string \<Rightarrow> expr \<Rightarrow> string \<Rightarrow> stmt" where
  "plugin_class cname base plugin =
     ClassDef cname [base] [Assign [Name ''name''] (Constant (CStr plugin))]"

definition ex_init_py :: source_file where
  "ex_init_py = Module
     [plugin_class ''A'' (Name ''PluginConfig'') ''plugin_a'',
      plugin_class ''B'' (OtherExpr ''module.PluginConfig'') ''plugin_b'',
      plugin_class ''C'' (Name ''PluginConfig'') ''plugin_c'']"

definition scan_initial :: scan_state where
  "scan_initial = \<lparr> pluginNames = [], errors_logged = 0 \<rparr>"

text \<open>A constant is a string.\<close>

fun is_str :: "const \<Rightarrow> bool" where
  "is_str (CStr s) = True"
| "is_str (CNonStr v) = False"

text \<open>
  Words of the claim about the list: the discovered names that are missing from the
  elements of a list display.  A discovered string is missing when it is not among the
  string constants of the list; a discovered constant that is not a string always
  counts as missing, whatever the list holds, for it is looked up among strings only.
\<close>

fun missing_from :: "expr list \<Rightarrow> const \<Rightarrow> bool" where
  "missing_from elts (CStr s) = (s \<notin> set (string_constants elts))"
| "missing_from elts (CNonStr v) = True"

definition missing_names :: "const list \<Rightarrow> expr list \<Rightarrow> const list" where
  "missing_names names elts = filter (missing_from elts) names"

text \<open>
  The registration file of the specification's example, with a comment above the list,
  and the names discovered.
\<close>

definition ex_plugins_assign :: "string list \<Rightarrow> stmt" where
  "ex_plugins_assign plugins = Assign [Name ''PLUGINS''] (ListExpr (map (\<lambda>s. Constant (CStr s)) plugins))"

definition ex_plugins_py :: "line list" where
  "ex_plugins_py = [Comment ''# active plugins'', Code (ex_plugins_assign [''existing_plugin''])]"

definition ex_discovered :: "const list" where
  "ex_discovered = [CStr ''existing_plugin'', CStr ''new_plugin'']"

text \<open>
  Words of the claim about the install gate.  A reported package is new or newer: its
  name is not in the installed-package map, or its reported version is greater than the
  installed one, as versions.  A report and an installed-package map are as the package
  manager writes them: every reported item has a non-empty name and a version that
  parses, and every installed version parses.
\<close>

definition new_or_newer ::
  "(string \<Rightarrow> 'v::linorder option) \<Rightarrow> (string, string) dict \<Rightarrow> string option \<times> string option \<Rightarrow> bool" where
  "new_or_newer Version preinstalled reported =
     (case reported of
        (Some package_name, Some new_version) \<Rightarrow>
          (case map_of preinstalled package_name of
             None \<Rightarrow> True
           | Some installed_version \<Rightarrow>
               (case (Version new_version, Version installed_version) of
                  (Some new, Some old) \<Rightarrow> new > old
                | _ \<Rightarrow> False))
      | _ \<Rightarrow> False)"

definition well_formed_item :: "(string \<Rightarrow> 'v option) \<Rightarrow> install_item \<Rightarrow> bool" where
  "well_formed_item Version i =
     ((case metadata_name i of Some n \<Rightarrow> n \<noteq> [] | None \<Rightarrow> False)
      \<and> (case metadata_version i of Some v \<Rightarrow> Version v \<noteq> None | None \<Rightarrow> False))"

definition well_formed_report ::
  "(string \<Rightarrow> 'v option) \<Rightarrow> (string, string) dict \<Rightarrow> install_item list \<Rightarrow> bool" where
  "well_formed_report Version preinstalled items =
     (list_all (well_formed_item Version) items
      \<and> list_all (\<lambda>(n, v). Version v \<noteq> None) preinstalled)"

text \<open>Reports and an installed-package map for the examples.\<close>

definition report_of :: "string \<Rightarrow> string \<Rightarrow> install_item list" where
  "report_of n v = [\<lparr> metadata_name = Some n, metadata_version = Some v \<rparr>]"

section \<open>Facts about dictionaries\<close>

lemma update_fresh_append:
  "k \<notin> fst ` set d \<Longrightarrow> AList.update k v d = d @ [(k, v)]"
  by (induction d) auto

lemma foldl_update_distinct:
  "distinct (map fst (d @ items)) \<Longrightarrow>
   foldl (\<lambda>d (k, v). AList.update k v d) d items = d @ items"
proof (induction items arbitrary: d)
  case Nil
  then show ?case by simp
next
  case (Cons kv items)
  obtain k v where kv: "kv = (k, v)" by (cases kv)
  from Cons.prems have fresh: "k \<notin> fst ` set d"
    by (auto simp: kv)
  have "distinct (map fst ((d @ [(k, v)]) @ items))"
    using Cons.prems by (simp add: kv)
  from Cons.IH [OF this] show ?case
    by (simp add: kv update_fresh_append [OF fresh])
qed

lemma dict_of_distinct: "distinct (map fst items) \<Longrightarrow> dict_of items = items"
  using foldl_update_distinct [of "[]" items] by (simp add: dict_of_def)

lemma distinct_fst_sort_key:
  "distinct (map fst x) \<Longrightarrow> distinct (map fst (sort_key f x))"
  by (simp add: distinct_map)

lemma hd_sort_key_Min:
  assumes "x \<noteq> []"
  shows "f (hd (sort_key f x)) = Min (f ` set x)"
proof -
  let ?s = "sort_key f x"
  have ne: "?s \<noteq> []" using assms by (metis length_0_conv length_sort)
  have srt: "sorted (map f ?s)" by (rule sorted_sort_key)
  have mem: "hd ?s \<in> set x" using ne hd_in_set by fastforce
  have low: "f (hd ?s) \<le> f y" if "y \<in> set x" for y
  proof -
    from that have "y \<in> set ?s" by simp
    with ne srt show ?thesis
      by (cases ?s) auto
  qed
  show ?thesis
  proof (rule sym, rule Min_eqI)
    show "finite (f ` set x)" by simp
    show "\<And>y. y \<in> f ` set x \<Longrightarrow> f (hd ?s) \<le> y" using low by auto
    show "f (hd ?s) \<in> f ` set x" using mem by simp
  qed
qed

section \<open>Facts about sorting\<close>

lemma py_insort_total_Cons:
  "py_insort total_lt key x (y # ys) =
     (if key y < key x
      then (case py_insort total_lt key x ys of Inl e \<Rightarrow> Inl e | Inr zs \<Rightarrow> Inr (y # zs))
      else Inr (x # y # ys))"
  by (simp add: total_lt_def)

lemma py_insort_no_lt_Cons: "py_insort no_lt key x (y # ys) = Inl TypeError"
  by (simp add: no_lt_def)

lemma py_insort_total: "py_insort total_lt key x ys = Inr (insort_key key x ys)"
proof (induction ys)
  case Nil
  then show ?case by simp
next
  case (Cons y ys)
  show ?case
  proof (cases "key y < key x")
    case True
    then have "\<not> key x \<le> key y" by simp
    with Cons True show ?thesis
      by (simp add: py_insort_total_Cons del: py_insort.simps)
  next
    case False
    then have "key x \<le> key y" by simp
    with False show ?thesis
      by (simp add: py_insort_total_Cons del: py_insort.simps)
  qed
qed

lemma py_sorted_total: "py_sorted total_lt key xs = Inr (sort_key key xs)"
  by (induction xs) (simp_all add: py_insort_total)

lemma py_sorted_small: "length xs \<le> 1 \<Longrightarrow> py_sorted lt key xs = Inr xs"
  by (cases xs) simp_all

lemma py_insort_length: "py_insort lt key x ys = Inr zs \<Longrightarrow> length zs = Suc (length ys)"
  by (induction ys arbitrary: zs) (auto split: option.splits bool.splits sum.splits)

lemma py_sorted_length: "py_sorted lt key xs = Inr ys \<Longrightarrow> length ys = length xs"
proof (induction xs arbitrary: ys)
  case Nil
  then show ?case by simp
next
  case (Cons x xs)
  then show ?case
    by (auto split: sum.splits dest: py_insort_length)
qed

lemma py_sorted_no_lt: "2 \<le> length xs \<Longrightarrow> py_sorted no_lt key xs = Inl TypeError"
proof (induction xs)
  case Nil
  then show ?case by simp
next
  case (Cons x xs)
  show ?case
  proof (cases "py_sorted no_lt key xs")
    case (Inl e)
    from Cons.prems have "length xs \<noteq> 0" by auto
    then have "2 \<le> length xs \<or> length xs = 1" by arith
    with Cons.IH Inl py_sorted_small [of xs no_lt key] have "e = TypeError" by auto
    with Inl show ?thesis by simp
  next
    case (Inr ys)
    from py_sorted_length [OF Inr] Cons.prems obtain y ys' where "ys = y # ys'"
      by (cases ys) auto
    with Inr show ?thesis by (simp add: py_insort_no_lt_Cons del: py_insort.simps)
  qed
qed

section \<open>The device type's manufacturer\<close>

text \<open>
  What \<^verbatim>\<open>min_hash_value_by_value\<close> gives: an error when the values have no order and
  there are two of them or more; the least value when the values are ordered; and, with
  at most one entry, what \<^verbatim>\<open>min_hash_value_by_key\<close> gives (nothing is compared).
\<close>

lemma min_hash_value_by_value_no_lt:
  "2 \<le> length x \<Longrightarrow> min_hash_value_by_value no_lt x = Inl TypeError"
  by (simp add: min_hash_value_by_value_def py_sorted_no_lt)

lemma min_hash_value_by_value_total_lt:
  assumes "distinct (map fst x)"
  shows "min_hash_value_by_value total_lt x
           = Inr (if x = [] then None else Some (Min (snd ` set x)))"
proof (cases "x = []")
  case True
  then show ?thesis
    by (simp add: min_hash_value_by_value_def next_iter_def dict_values_def dict_of_def)
next
  case False
  let ?s = "sort_key snd x"
  have ne: "?s \<noteq> []" using False by (metis length_0_conv length_sort)
  have "dict_of ?s = ?s"
    by (rule dict_of_distinct) (rule distinct_fst_sort_key [OF assms])
  then have "min_hash_value_by_value total_lt x = Inr (Some (snd (hd ?s)))"
    using ne
    by (cases ?s)
       (simp_all add: min_hash_value_by_value_def py_sorted_total next_iter_def dict_values_def)
  with hd_sort_key_Min [OF False, of snd] False show ?thesis
    by simp
qed

lemma min_hash_value_at_most_one:
  assumes "length x \<le> 1"
  shows "min_hash_value_by_value lt x = min_hash_value_by_key lt' x"
  using assms
  by (simp add: min_hash_value_by_value_def min_hash_value_by_key_def py_sorted_small)

text \<open>
  C4.  A run with two manufacturers: the server has no manufacturer, two manufacturers
  \<open>A\<close> and \<open>B\<close> and the device type \<open>Unspecified\<close> are to be created, waiting is
  disabled, and the handles of the API client define no order.  Both manufacturers are created; then
  the sort by value of the two handles raises \<^verbatim>\<open>TypeError\<close>, the block of the device
  types ends in its handler, and no device type is created.  The member with the smallest
  key, which \<^verbatim>\<open>min_hash_value_by_key\<close> gives, is \<open>A\<close>.  With the single default
  manufacturer nothing is compared and the device type is created.
\<close>

theorem device_type_with_two_manufacturers:
  "min_hash_value_by_value no_lt (by_key ex_nb [''A'', ''B'']) = Inl TypeError
   \<and> min_hash_value_by_key total_lt (by_key ex_nb [''A'', ''B'']) = Inr (Some ''A'')
   \<and> map_option (\<lambda>w'. (resources w' Manufacturers, resources w' DeviceTypes,
                        ErrorProcessing DeviceTypes \<in> set (log w')))
        (reconciler ex_nb (ex_args\<lparr>manufacturers := [''A'', ''B'']\<rparr>) ex_world)
       = Some ([''A'', ''B''], [], True)
   \<and> map_option (\<lambda>w'. (resources w' Manufacturers, resources w' DeviceTypes,
                        ErrorProcessing DeviceTypes \<in> set (log w')))
        (reconciler ex_nb ex_args ex_world)
       = Some ([''Unspecified''], [''Unspecified''], False)"
  by code_simp

section \<open>The backup that is chosen\<close>

lemma ex_candidates:
  "preload_candidates ex_fs ex_args = [''/opt/netbox-preload/new.gz'', ''/opt/netbox-preload/old.gz'']"
  by (simp add: preload_candidates_def ex_fs_def ex_args_def path_join_def endswith_def isfile_def)

lemma ex_select: "select_preload_file ex_fs ex_args = ''/opt/netbox-preload/old.gz''"
proof -
  have cond: "\<not> isfile ex_fs (preloadBackupFile ex_args) \<and> isdir ex_fs (preloadDir ex_args)"
    by (simp add: ex_fs_def ex_args_def isfile_def isdir_def)
  have "sort_key (getmtime ex_fs) (preload_candidates ex_fs ex_args)
          = [''/opt/netbox-preload/old.gz'', ''/opt/netbox-preload/new.gz'']"
    unfolding ex_candidates by (simp add: ex_fs_def)
  with cond show ?thesis
    by (simp add: select_preload_file_def next_iter_def)
qed

text \<open>
  C2: with two dumps in the preload directory and no explicit backup, the code takes
  the one with the smallest modification time, the oldest, where the claim (and the
  comment in the code) say the newest: the list is sorted ascending and its first
  element is taken.
\<close>

theorem select_preload_file_takes_oldest:
  "select_preload_file ex_fs ex_args = ''/opt/netbox-preload/old.gz'' \<and>
   ''/opt/netbox-preload/new.gz'' \<in> set (preload_candidates ex_fs ex_args) \<and>
   getmtime ex_fs ''/opt/netbox-preload/old.gz'' < getmtime ex_fs ''/opt/netbox-preload/new.gz''"
  by (simp add: ex_select ex_candidates) (simp add: ex_fs_def)

lemma select_preload_file_least_mtime:
  assumes "\<not> isfile fs (preloadBackupFile a)" "isdir fs (preloadDir a)"
    and "x \<in> set (preload_candidates fs a)"
  shows "select_preload_file fs a \<in> set (preload_candidates fs a) \<and>
         getmtime fs (select_preload_file fs a) \<le> getmtime fs x"
proof -
  let ?s = "sort_key (getmtime fs) (preload_candidates fs a)"
  have ne: "preload_candidates fs a \<noteq> []" using assms(3) by auto
  then have ne': "?s \<noteq> []" by (metis length_0_conv length_sort)
  have sel: "select_preload_file fs a = hd ?s"
    using assms(1,2) ne' by (cases ?s) (simp_all add: select_preload_file_def next_iter_def)
  have mem: "hd ?s \<in> set (preload_candidates fs a)"
    by (metis hd_in_set ne' set_sort)
  have "getmtime fs (hd ?s) = Min (getmtime fs ` set (preload_candidates fs a))"
    by (rule hd_sort_key_Min [OF ne])
  then have "getmtime fs (hd ?s) \<le> getmtime fs x"
    using assms(3) by simp
  with sel mem show ?thesis by simp
qed

section \<open>Facts about the restore sequence\<close>

lemma log_if_fields [simp]:
  "trace (log_if c s st) = trace st"
  "loaded_from (log_if c s st) = loaded_from st"
  "preloadDatabaseSuccess (log_if c s st) = preloadDatabaseSuccess st"
  "caught (log_if c s st) = caught st"
  by (simp_all add: log_if_def)

lemma raise_exception_fields [simp]:
  "trace (raise_exception st) = trace st"
  "loaded_from (raise_exception st) = loaded_from st"
  "preloadDatabaseSuccess (raise_exception st) = preloadDatabaseSuccess st"
  "caught (raise_exception st) = True"
  by (simp_all add: raise_exception_def)

lemma run_step_success:
  assumes "\<And>err results st'. preloadDatabaseSuccess (k err results st') = preloadDatabaseSuccess st'"
  shows "preloadDatabaseSuccess (run_step env s st k) = preloadDatabaseSuccess st"
  using assms by (simp add: run_step_def Let_def split: outcome.splits)

lemma run_step_trace:
  assumes "\<And>err results st'. x \<in> set (trace st') \<Longrightarrow> x \<in> set (trace (k err results st'))"
    and "x \<in> set (trace st)"
  shows "x \<in> set (trace (run_step env s st k))"
  using assms by (simp add: run_step_def Let_def split: outcome.splits)

lemma run_manage_operations_success:
  assumes "\<And>st'. preloadDatabaseSuccess (k st') = preloadDatabaseSuccess st'"
  shows "preloadDatabaseSuccess (run_manage_operations env ops st k) = preloadDatabaseSuccess st"
  using assms by (induction ops arbitrary: st) (simp_all add: run_step_success)

lemma run_manage_operations_trace:
  assumes "\<And>st'. x \<in> set (trace st') \<Longrightarrow> x \<in> set (trace (k st'))"
    and "x \<in> set (trace st)"
  shows "x \<in> set (trace (run_manage_operations env ops st k))"
  using assms by (induction ops arbitrary: st) (simp_all add: run_step_trace)

lemma restore_media_fields [simp]:
  "preloadDatabaseSuccess (restore_media env fs a f st) = preloadDatabaseSuccess st"
  "caught (restore_media env fs a f st) = caught st"
  by (simp_all add: restore_media_def Let_def split: outcome.splits)

lemma restore_media_trace:
  "x \<in> set (trace st) \<Longrightarrow> x \<in> set (trace (restore_media env fs a f st))"
  by (simp add: restore_media_def Let_def split: outcome.splits)

lemma after_load_success:
  "preloadDatabaseSuccess (after_load env fs a f st) = preloadDatabaseSuccess st"
  unfolding after_load_def
  by (simp add: run_step_success run_manage_operations_success)

lemma after_load_trace:
  "x \<in> set (trace st) \<Longrightarrow> x \<in> set (trace (after_load env fs a f st))"
  unfolding after_load_def
  by (intro run_step_trace run_manage_operations_trace restore_media_trace) simp_all

lemma run_step_loaded_from:
  assumes "\<And>err results st'. loaded_from (k err results st') = loaded_from st'"
  shows "loaded_from (run_step env s st k) = loaded_from st"
  using assms by (simp add: run_step_def Let_def split: outcome.splits)

lemma run_manage_operations_loaded_from:
  assumes "\<And>st'. loaded_from (k st') = loaded_from st'"
  shows "loaded_from (run_manage_operations env ops st k) = loaded_from st"
  using assms by (induction ops arbitrary: st) (simp_all add: run_step_loaded_from)

lemma restore_media_loaded_from [simp]:
  "loaded_from (restore_media env fs a f st) = loaded_from st"
  by (simp add: restore_media_def Let_def split: outcome.splits)

lemma after_load_loaded_from:
  "loaded_from (after_load env fs a f st) = loaded_from st"
  unfolding after_load_def
  by (simp add: run_step_loaded_from run_manage_operations_loaded_from)

lemma restore_started: "StopServices \<in> set (trace (restore env fs a f))"
  unfolding restore_def
  by (auto simp: run_step_def Let_def restore_initial_def after_load_trace split: outcome.splits)

lemma restore_loaded_from:
  "LoadBackup \<in> set (trace (restore env fs a f)) \<Longrightarrow> loaded_from (restore env fs a f) = Some f"
  unfolding restore_def
  by (auto simp: run_step_def Let_def restore_initial_def after_load_loaded_from
      split: outcome.splits if_splits)

lemma restore_reaches_load:
  assumes "reaches_load env"
  shows "LoadBackup \<in> set (trace (restore env fs a f))"
    and "preloadDatabaseSuccess (restore env fs a f) = load_completed (env LoadBackup)"
proof -
  from assms obtain e1 r1 e2 r2 r3 e4 r4 e5 r5 where
    "env StopServices = Returns e1 r1" "env DropDb = Returns e2 r2" "env CreateDb = Returns 0 r3"
    "env GrantPrivileges = Returns e4 r4" "env ReadBackup = Returns e5 r5"
    unfolding reaches_load_def
    by (cases "env StopServices"; cases "env DropDb"; cases "env CreateDb";
        cases "env GrantPrivileges"; cases "env ReadBackup") auto
  then show "LoadBackup \<in> set (trace (restore env fs a f))"
    and "preloadDatabaseSuccess (restore env fs a f) = load_completed (env LoadBackup)"
    unfolding restore_def
    by (auto simp: run_step_def Let_def restore_initial_def after_load_trace after_load_success
        split: outcome.splits)
qed

lemma restore_success_iff:
  "preloadDatabaseSuccess (restore env fs a f) \<longleftrightarrow>
     LoadBackup \<in> set (trace (restore env fs a f)) \<and> load_completed (env LoadBackup)"
  unfolding restore_def
  by (auto simp: run_step_def Let_def restore_initial_def after_load_success after_load_trace
      split: outcome.splits)

lemma restore_createdb_fails:
  assumes "env StopServices \<noteq> Raises" "env DropDb \<noteq> Raises"
    and "env CreateDb = Returns err results" "err \<noteq> 0"
  shows "trace (restore env fs a f) = [StopServices, DropDb, CreateDb]"
    and "caught (restore env fs a f)"
    and "\<not> preloadDatabaseSuccess (restore env fs a f)"
  using assms unfolding restore_def
  by (auto simp: run_step_def Let_def restore_initial_def split: outcome.splits)

lemma restore_load_fails:
  assumes "LoadBackup \<in> set (trace (restore env fs a f))" "\<not> load_completed (env LoadBackup)"
  shows "last (trace (restore env fs a f)) = LoadBackup"
    and "caught (restore env fs a f)"
    and "\<not> preloadDatabaseSuccess (restore env fs a f)"
  using assms unfolding restore_def
  by (auto simp: run_step_def Let_def restore_initial_def split: outcome.splits if_splits)

lemma restore_success_prefix:
  assumes "\<forall>s\<in>set [StopServices, DropDb, CreateDb, GrantPrivileges, ReadBackup, LoadBackup].
             env' s = env s"
  shows "preloadDatabaseSuccess (restore env' fs' a' f')
           = preloadDatabaseSuccess (restore env fs a f)"
  using assms unfolding restore_def
  by (auto simp: run_step_def Let_def restore_initial_def after_load_success split: outcome.splits)

section \<open>Facts about the phases\<close>

lemma main_cases:
  "main fs env nb a w =
     (if populate_via_api fs env a then map_option (finish fs env a) (reconciler nb a w)
      else Some (finish fs env a w))"
  by (simp add: main_def split: option.splits)

lemma reconciler_no_wait: "\<not> wait a \<Longrightarrow> reconciler nb a w = Some (reconcile_all nb a w)"
  by (simp add: reconciler_def connectivity_gate_def)


lemma preload_candidates_props:
  assumes "x \<in> set (preload_candidates fs a)"
  shows "isfile fs x" and "\<not> endswith x ''.media.tar.gz''"
    and "x \<in> set (glob fs (path_join (preloadDir a) ''*.gz''))"
  using assms by (auto simp: preload_candidates_def)

lemma select_preload_file_fallback:
  assumes "\<not> isfile fs (preloadBackupFile a)" "isdir fs (preloadDir a)"
    and "preload_candidates fs a \<noteq> []"
  shows "select_preload_file fs a \<in> set (preload_candidates fs a)"
proof -
  from assms(3) obtain x where "x \<in> set (preload_candidates fs a)"
    by (cases "preload_candidates fs a") auto
  from select_preload_file_least_mtime [OF assms(1,2) this] show ?thesis by simp
qed

lemma select_preload_file_nothing:
  assumes "\<not> isfile fs (preloadBackupFile a)"
    and "\<not> (isdir fs (preloadDir a) \<and> preload_candidates fs a \<noteq> [])"
  shows "\<not> isfile fs (select_preload_file fs a)"
  using assms by (auto simp: select_preload_file_def next_iter_def isfile_def)

lemma restore_phase_entered:
  "isfile fs (select_preload_file fs a) \<Longrightarrow>
   restore_phase fs env a
     = (Some (select_preload_file fs a), restore env fs a (select_preload_file fs a))"
  by (simp add: restore_phase_def Let_def)

lemma restore_phase_skipped:
  "\<not> isfile fs (select_preload_file fs a) \<Longrightarrow> restore_phase fs env a = (None, restore_initial)"
  by (simp add: restore_phase_def Let_def)

lemma ex_restore_createdb_fails:
  "restore env_createdb_fails fs a f =
     \<lparr> trace = [StopServices, DropDb, CreateDb], logged = [], loaded_from = None,
       preloadDatabaseSuccess = False, caught = True \<rparr>"
  by (simp add: restore_def run_step_def env_createdb_fails_def restore_initial_def
      log_if_def raise_exception_def)

lemma ex_restore_load_empty:
  "restore env_load_empty fs a f =
     \<lparr> trace = [StopServices, DropDb, CreateDb, GrantPrivileges, ReadBackup, LoadBackup],
       logged = [], loaded_from = Some f, preloadDatabaseSuccess = False, caught = True \<rparr>"
  by (simp add: restore_def run_step_def env_load_empty_def restore_initial_def
      log_if_def raise_exception_def)

lemma ex_restore_ok_success: "preloadDatabaseSuccess (restore env_ok fs a f)"
  by (simp add: restore_def run_step_def env_ok_def restore_initial_def log_if_def
      after_load_success)

lemma ex_isfile_select: "isfile ex_fs (select_preload_file ex_fs ex_args)"
  by (simp add: ex_select) (simp add: isfile_def ex_fs_def)

section \<open>Failures in the restore sequence\<close>

text \<open>
  C6.  Let \<open>R\<close> be the state in which the restore block ends.
  (1) When the database cannot be created (the steps before it returned), the block
  ends right there, in its exception handler, and no success is recorded.
  (2) When the load step is reached and does not complete (it raises, or returns a
  non-zero status or no output), the block ends there, in its handler, without success.
  (3) Success is recorded exactly when the load step was reached and completed with
  status 0 and some output; (4) what the later steps do cannot change it: two
  environments that agree up to the load step record the same.
  (5) The program goes on after the block whatever happened in it: the reconciler is
  decided by the recorded success and the explicit request, and the initializers by
  their own condition.
\<close>

theorem restore_fatal_steps_and_success:
  "(env StopServices \<noteq> Raises \<and> env DropDb \<noteq> Raises \<and> env CreateDb = Returns err results
      \<and> err \<noteq> 0 \<longrightarrow>
      trace (restore env fs a f) = [StopServices, DropDb, CreateDb]
      \<and> caught (restore env fs a f) \<and> \<not> preloadDatabaseSuccess (restore env fs a f))
   \<and> (LoadBackup \<in> set (trace (restore env fs a f)) \<and> \<not> load_completed (env LoadBackup) \<longrightarrow>
      last (trace (restore env fs a f)) = LoadBackup
      \<and> caught (restore env fs a f) \<and> \<not> preloadDatabaseSuccess (restore env fs a f))
   \<and> (preloadDatabaseSuccess (restore env fs a f) \<longleftrightarrow>
        LoadBackup \<in> set (trace (restore env fs a f)) \<and> load_completed (env LoadBackup))
   \<and> ((\<forall>s\<in>set [StopServices, DropDb, CreateDb, GrantPrivileges, ReadBackup, LoadBackup].
          env' s = env s) \<longrightarrow>
        preloadDatabaseSuccess (restore env' fs a f) = preloadDatabaseSuccess (restore env fs a f))
   \<and> (isfile fs (select_preload_file fs a) \<longrightarrow>
        main fs env nb a w =
          (if \<not> preloadDatabaseSuccess (restore env fs a (select_preload_file fs a))
              \<and> preloadBackupFile a = []
           then map_option (finish fs env a) (reconciler nb a w)
           else Some (finish fs env a w))
        \<and> restore_result (finish fs env a w') = restore env fs a (select_preload_file fs a)
        \<and> initializers_ran (finish fs env a w') = run_initializers fs a)"
proof (intro conjI impI)
  assume "env StopServices \<noteq> Raises \<and> env DropDb \<noteq> Raises \<and> env CreateDb = Returns err results
      \<and> err \<noteq> 0"
  then have h: "env StopServices \<noteq> Raises" "env DropDb \<noteq> Raises"
    "env CreateDb = Returns err results" "err \<noteq> 0" by simp_all
  show "trace (restore env fs a f) = [StopServices, DropDb, CreateDb]"
    by (rule restore_createdb_fails(1) [OF h])
  show "caught (restore env fs a f)"
    by (rule restore_createdb_fails(2) [OF h])
  show "\<not> preloadDatabaseSuccess (restore env fs a f)"
    by (rule restore_createdb_fails(3) [OF h])
next
  assume "LoadBackup \<in> set (trace (restore env fs a f)) \<and> \<not> load_completed (env LoadBackup)"
  then have h: "LoadBackup \<in> set (trace (restore env fs a f))" "\<not> load_completed (env LoadBackup)"
    by simp_all
  show "last (trace (restore env fs a f)) = LoadBackup"
    by (rule restore_load_fails(1) [OF h])
  show "caught (restore env fs a f)"
    by (rule restore_load_fails(2) [OF h])
  show "\<not> preloadDatabaseSuccess (restore env fs a f)"
    by (rule restore_load_fails(3) [OF h])
next
  show "preloadDatabaseSuccess (restore env fs a f) \<longleftrightarrow>
        LoadBackup \<in> set (trace (restore env fs a f)) \<and> load_completed (env LoadBackup)"
    by (rule restore_success_iff)
next
  assume "\<forall>s\<in>set [StopServices, DropDb, CreateDb, GrantPrivileges, ReadBackup, LoadBackup].
          env' s = env s"
  then show "preloadDatabaseSuccess (restore env' fs a f) = preloadDatabaseSuccess (restore env fs a f)"
    by (rule restore_success_prefix)
next
  assume f: "isfile fs (select_preload_file fs a)"
  then have ph: "restore_phase fs env a
      = (Some (select_preload_file fs a), restore env fs a (select_preload_file fs a))"
    by (rule restore_phase_entered)
  show "main fs env nb a w =
          (if \<not> preloadDatabaseSuccess (restore env fs a (select_preload_file fs a))
              \<and> preloadBackupFile a = []
           then map_option (finish fs env a) (reconciler nb a w)
           else Some (finish fs env a w))"
    by (simp add: main_cases populate_via_api_def ph)
  show "restore_result (finish fs env a w') = restore env fs a (select_preload_file fs a)"
    by (simp add: finish_def ph)
  show "initializers_ran (finish fs env a w') = run_initializers fs a"
    by (simp add: finish_def)
qed

theorem restore_fatal_steps_and_success_witness:
  "trace (restore env_createdb_fails ex_fs ex_args ''/opt/netbox-preload/old.gz'')
      = [StopServices, DropDb, CreateDb]
   \<and> caught (restore env_createdb_fails ex_fs ex_args ''/opt/netbox-preload/old.gz'')
   \<and> \<not> preloadDatabaseSuccess (restore env_createdb_fails ex_fs ex_args ''/opt/netbox-preload/old.gz'')
   \<and> last (trace (restore env_load_empty ex_fs ex_args ''/opt/netbox-preload/old.gz'')) = LoadBackup
   \<and> caught (restore env_load_empty ex_fs ex_args ''/opt/netbox-preload/old.gz'')
   \<and> preloadDatabaseSuccess (restore env_ok ex_fs ex_args ''/opt/netbox-preload/old.gz'')
   \<and> preloadDatabaseSuccess (restore (env_ok (MigrateVrf := Raises)) ex_fs ex_args ''/opt/netbox-preload/old.gz'')
   \<and> main ex_fs env_createdb_fails ex_nb ex_args ex_world
        = map_option (finish ex_fs env_createdb_fails ex_args)
            (reconciler ex_nb ex_args ex_world)"
proof -
  let ?f = "''/opt/netbox-preload/old.gz''"
  note t1 = restore_fatal_steps_and_success
    [of env_createdb_fails 1 "[]" ex_fs ex_args ?f env_createdb_fails ex_nb ex_world ex_world]
  note t2 = restore_fatal_steps_and_success
    [of env_load_empty 0 "[]" ex_fs ex_args ?f env_load_empty ex_nb ex_world ex_world]
  note t3 = restore_fatal_steps_and_success
    [of env_ok 0 "[]" ex_fs ex_args ?f "env_ok (MigrateVrf := Raises)" ex_nb ex_world ex_world]
  have a: "trace (restore env_createdb_fails ex_fs ex_args ?f) = [StopServices, DropDb, CreateDb]
      \<and> caught (restore env_createdb_fails ex_fs ex_args ?f)
      \<and> \<not> preloadDatabaseSuccess (restore env_createdb_fails ex_fs ex_args ?f)"
    using t1 by (simp add: env_createdb_fails_def)
  have b: "last (trace (restore env_load_empty ex_fs ex_args ?f)) = LoadBackup
      \<and> caught (restore env_load_empty ex_fs ex_args ?f)"
    using t2 by (simp add: ex_restore_load_empty env_load_empty_def)
  have c: "preloadDatabaseSuccess (restore env_ok ex_fs ex_args ?f)"
    by (rule ex_restore_ok_success)
  have d: "preloadDatabaseSuccess (restore (env_ok (MigrateVrf := Raises)) ex_fs ex_args ?f)"
    using t3 c by simp
  have e: "main ex_fs env_createdb_fails ex_nb ex_args ex_world
        = map_option (finish ex_fs env_createdb_fails ex_args) (reconciler ex_nb ex_args ex_world)"
    using t1 ex_isfile_select
    by (simp add: ex_restore_createdb_fails ex_args_def)
  from a b c d e show ?thesis by simp
qed

section \<open>Restore or reconcile\<close>

text \<open>
  C3, as the code has it.  The reconciler runs exactly when no success of a restore is
  recorded and no backup file was requested explicitly:
  (1) when a backup is found and its restore succeeds, the reconciler does not run;
  (2) when no backup is found and none was requested, it runs;
  (3) when the restore was skipped or failed and none was requested, it runs;
  and the program runs the reconciler on the API exactly under that condition, leaving
  the API alone otherwise.
\<close>

theorem restore_gating:
  "(isfile fs (select_preload_file fs a)
      \<and> preloadDatabaseSuccess (restore env fs a (select_preload_file fs a)) \<longrightarrow>
      \<not> populate_via_api fs env a)
   \<and> (\<not> isfile fs (select_preload_file fs a) \<and> preloadBackupFile a = [] \<longrightarrow>
      populate_via_api fs env a)
   \<and> (\<not> preloadDatabaseSuccess (snd (restore_phase fs env a)) \<and> preloadBackupFile a = [] \<longrightarrow>
      populate_via_api fs env a)
   \<and> (populate_via_api fs env a \<longrightarrow>
      main fs env nb a w = map_option (finish fs env a) (reconciler nb a w))
   \<and> (\<not> populate_via_api fs env a \<longrightarrow> main fs env nb a w = Some (finish fs env a w))
   \<and> reconciler_ran (finish fs env a w') = populate_via_api fs env a"
  by (auto simp: populate_via_api_def restore_phase_entered restore_phase_skipped
      restore_initial_def main_cases finish_def)

theorem restore_gating_witness:
  "\<not> populate_via_api ex_fs env_ok ex_args
   \<and> populate_via_api (ex_fs\<lparr>dir_at := (\<lambda>p. False)\<rparr>) env_ok ex_args
   \<and> populate_via_api ex_fs env_createdb_fails ex_args
   \<and> main ex_fs env_createdb_fails ex_nb ex_args ex_world
        = map_option (finish ex_fs env_createdb_fails ex_args) (reconciler ex_nb ex_args ex_world)
   \<and> main ex_fs env_ok ex_nb ex_args ex_world = Some (finish ex_fs env_ok ex_args ex_world)"
proof -
  note t1 = restore_gating [of ex_fs ex_args env_ok ex_nb ex_world ex_world]
  note t2 = restore_gating [of "ex_fs\<lparr>dir_at := (\<lambda>p. False)\<rparr>" ex_args env_ok ex_nb ex_world ex_world]
  note t3 = restore_gating [of ex_fs ex_args env_createdb_fails ex_nb ex_world ex_world]
  have a: "\<not> populate_via_api ex_fs env_ok ex_args"
    using t1 ex_isfile_select ex_restore_ok_success by blast
  have "\<not> isfile (ex_fs\<lparr>dir_at := (\<lambda>p. False)\<rparr>)
           (select_preload_file (ex_fs\<lparr>dir_at := (\<lambda>p. False)\<rparr>) ex_args)"
    by (simp add: select_preload_file_def isfile_def isdir_def ex_args_def)
  moreover have "preloadBackupFile ex_args = []"
    by (simp add: ex_args_def)
  ultimately have b: "populate_via_api (ex_fs\<lparr>dir_at := (\<lambda>p. False)\<rparr>) env_ok ex_args"
    using t2 by blast
  have "\<not> preloadDatabaseSuccess (snd (restore_phase ex_fs env_createdb_fails ex_args))"
    by (simp add: restore_phase_entered [OF ex_isfile_select] ex_restore_createdb_fails)
  with \<open>preloadBackupFile ex_args = []\<close> have c: "populate_via_api ex_fs env_createdb_fails ex_args"
    using t3 by blast
  from c t3 have d: "main ex_fs env_createdb_fails ex_nb ex_args ex_world
        = map_option (finish ex_fs env_createdb_fails ex_args) (reconciler ex_nb ex_args ex_world)"
    by blast
  from a t1 have e: "main ex_fs env_ok ex_nb ex_args ex_world = Some (finish ex_fs env_ok ex_args ex_world)"
    by blast
  from a b c d e show ?thesis by simp
qed

text \<open>
  C3 as the specification states it fails in its first part: a backup is found in the
  preload directory, the database cannot be created, so that the restore fails, no
  backup was requested explicitly, and the reconciler runs.
\<close>

theorem restore_gating_counterexample:
  "isfile ex_fs (select_preload_file ex_fs ex_args)
   \<and> select_preload_file ex_fs ex_args \<in> set (preload_candidates ex_fs ex_args)
   \<and> map_option reconciler_ran (main ex_fs env_createdb_fails ex_nb ex_args ex_world) = Some True"
proof -
  have "populate_via_api ex_fs env_createdb_fails ex_args"
    by (simp add: populate_via_api_def restore_phase_entered [OF ex_isfile_select]
        ex_restore_createdb_fails) (simp add: ex_args_def)
  moreover have "\<not> wait ex_args" by (simp add: ex_args_def)
  ultimately have "map_option reconciler_ran (main ex_fs env_createdb_fails ex_nb ex_args ex_world)
      = Some True"
    by (simp add: main_cases reconciler_no_wait finish_def)
  then show ?thesis
    using ex_isfile_select by (simp add: ex_select ex_candidates)
qed

section \<open>An explicit backup that is not there\<close>

text \<open>
  C9.  A backup file is requested explicitly and is not a file.  Then, when the preload
  directory exists and holds a candidate (a file matching \<^verbatim>\<open>*.gz\<close> there that is not
  a media archive), the restore block runs on a candidate of that directory instead: it
  starts by stopping the services, the load command, whenever it is started, is fed that
  candidate, and when the steps before the load let the block reach it, the load is
  started and the restore succeeds exactly when the load completes.  Otherwise no
  restore is attempted.  Either way the program returns, and the reconciler does not
  run and the API is left as it was, whatever the restore did.
\<close>

theorem missing_explicit_backup_falls_back:
  assumes "preloadBackupFile a \<noteq> []" and "\<not> isfile fs (preloadBackupFile a)"
  shows "(isdir fs (preloadDir a) \<and> preload_candidates fs a \<noteq> [] \<longrightarrow>
            select_preload_file fs a \<in> set (glob fs (path_join (preloadDir a) ''*.gz''))
            \<and> isfile fs (select_preload_file fs a)
            \<and> \<not> endswith (select_preload_file fs a) ''.media.tar.gz''
            \<and> restore_phase fs env a
                = (Some (select_preload_file fs a), restore env fs a (select_preload_file fs a))
            \<and> StopServices \<in> set (trace (snd (restore_phase fs env a)))
            \<and> (LoadBackup \<in> set (trace (snd (restore_phase fs env a))) \<longrightarrow>
                 loaded_from (snd (restore_phase fs env a)) = Some (select_preload_file fs a))
            \<and> (reaches_load env \<longrightarrow>
                 LoadBackup \<in> set (trace (snd (restore_phase fs env a)))
                 \<and> loaded_from (snd (restore_phase fs env a)) = Some (select_preload_file fs a)
                 \<and> preloadDatabaseSuccess (snd (restore_phase fs env a))
                     = load_completed (env LoadBackup)))
       \<and> (\<not> (isdir fs (preloadDir a) \<and> preload_candidates fs a \<noteq> []) \<longrightarrow>
            restore_phase fs env a = (None, restore_initial))
       \<and> \<not> populate_via_api fs env a
       \<and> main fs env nb a w = Some (finish fs env a w)
       \<and> \<not> reconciler_ran (finish fs env a w)
       \<and> api (finish fs env a w) = w"
proof -
  let ?f = "select_preload_file fs a"
  have np: "\<not> populate_via_api fs env a"
    using assms(1) by (simp add: populate_via_api_def)
  have found: "?f \<in> set (preload_candidates fs a)"
    if "isdir fs (preloadDir a) \<and> preload_candidates fs a \<noteq> []"
    using that select_preload_file_fallback [OF assms(2)] by blast
  have none: "restore_phase fs env a = (None, restore_initial)"
    if "\<not> (isdir fs (preloadDir a) \<and> preload_candidates fs a \<noteq> [])"
    by (rule restore_phase_skipped) (rule select_preload_file_nothing [OF assms(2) that])
  have entered: "restore_phase fs env a = (Some ?f, restore env fs a ?f)"
    if "isdir fs (preloadDir a) \<and> preload_candidates fs a \<noteq> []"
    by (rule restore_phase_entered) (rule preload_candidates_props(1) [OF found [OF that]])
  have steps: "StopServices \<in> set (trace (restore env fs a ?f))
      \<and> (LoadBackup \<in> set (trace (restore env fs a ?f)) \<longrightarrow>
            loaded_from (restore env fs a ?f) = Some ?f)
      \<and> (reaches_load env \<longrightarrow>
            LoadBackup \<in> set (trace (restore env fs a ?f))
            \<and> loaded_from (restore env fs a ?f) = Some ?f
            \<and> preloadDatabaseSuccess (restore env fs a ?f) = load_completed (env LoadBackup))"
    using restore_started [of env fs a ?f] restore_loaded_from [of env fs a ?f]
      restore_reaches_load [of env fs a ?f]
    by blast
  show ?thesis
  proof (intro conjI impI)
    assume c: "isdir fs (preloadDir a) \<and> preload_candidates fs a \<noteq> []"
    show "?f \<in> set (glob fs (path_join (preloadDir a) ''*.gz''))"
      by (rule preload_candidates_props(3) [OF found [OF c]])
    show "isfile fs ?f"
      by (rule preload_candidates_props(1) [OF found [OF c]])
    show "\<not> endswith ?f ''.media.tar.gz''"
      by (rule preload_candidates_props(2) [OF found [OF c]])
    show "restore_phase fs env a = (Some ?f, restore env fs a ?f)"
      by (rule entered [OF c])
    show "StopServices \<in> set (trace (snd (restore_phase fs env a)))"
      using steps by (simp add: entered [OF c])
    show "loaded_from (snd (restore_phase fs env a)) = Some ?f"
      if "LoadBackup \<in> set (trace (snd (restore_phase fs env a)))"
      using steps that by (simp add: entered [OF c])
    show "LoadBackup \<in> set (trace (snd (restore_phase fs env a)))" if "reaches_load env"
      using steps that by (simp add: entered [OF c])
    show "loaded_from (snd (restore_phase fs env a)) = Some ?f" if "reaches_load env"
      using steps that by (simp add: entered [OF c])
    show "preloadDatabaseSuccess (snd (restore_phase fs env a)) = load_completed (env LoadBackup)"
      if "reaches_load env"
      using steps that by (simp add: entered [OF c])
  next
    assume "\<not> (isdir fs (preloadDir a) \<and> preload_candidates fs a \<noteq> [])"
    then show "restore_phase fs env a = (None, restore_initial)" by (rule none)
  next
    show "\<not> populate_via_api fs env a" by (rule np)
    show "main fs env nb a w = Some (finish fs env a w)"
      using np by (simp add: main_cases)
    show "\<not> reconciler_ran (finish fs env a w)"
      using np by (simp add: finish_def)
    show "api (finish fs env a w) = w"
      by (simp add: finish_def)
  qed
qed

theorem missing_explicit_backup_falls_back_witness:
  "preloadBackupFile (ex_args\<lparr>preloadBackupFile := ''/backups/missing.gz''\<rparr>) \<noteq> []
   \<and> \<not> isfile ex_fs (preloadBackupFile (ex_args\<lparr>preloadBackupFile := ''/backups/missing.gz''\<rparr>))
   \<and> restore_phase ex_fs env_createdb_fails (ex_args\<lparr>preloadBackupFile := ''/backups/missing.gz''\<rparr>)
       = (Some ''/opt/netbox-preload/old.gz'',
          restore env_createdb_fails ex_fs (ex_args\<lparr>preloadBackupFile := ''/backups/missing.gz''\<rparr>)
            ''/opt/netbox-preload/old.gz'')
   \<and> loaded_from
        (snd (restore_phase ex_fs env_ok (ex_args\<lparr>preloadBackupFile := ''/backups/missing.gz''\<rparr>)))
       = Some ''/opt/netbox-preload/old.gz''
   \<and> preloadDatabaseSuccess
        (snd (restore_phase ex_fs env_ok (ex_args\<lparr>preloadBackupFile := ''/backups/missing.gz''\<rparr>)))
   \<and> main ex_fs env_createdb_fails ex_nb (ex_args\<lparr>preloadBackupFile := ''/backups/missing.gz''\<rparr>) ex_world
       = Some (finish ex_fs env_createdb_fails (ex_args\<lparr>preloadBackupFile := ''/backups/missing.gz''\<rparr>) ex_world)
   \<and> \<not> reconciler_ran
         (finish ex_fs env_createdb_fails (ex_args\<lparr>preloadBackupFile := ''/backups/missing.gz''\<rparr>) ex_world)"
proof -
  let ?a = "ex_args\<lparr>preloadBackupFile := ''/backups/missing.gz''\<rparr>"
  have h1: "preloadBackupFile ?a \<noteq> []" by simp
  have h2: "\<not> isfile ex_fs (preloadBackupFile ?a)" by (simp add: isfile_def ex_fs_def)
  have cand: "preload_candidates ex_fs ?a = preload_candidates ex_fs ex_args"
    by (simp add: preload_candidates_def ex_args_def)
  have dir: "isdir ex_fs (preloadDir ?a)" by (simp add: isdir_def ex_fs_def ex_args_def)
  have "sort_key (getmtime ex_fs) (preload_candidates ex_fs ?a)
          = [''/opt/netbox-preload/old.gz'', ''/opt/netbox-preload/new.gz'']"
    unfolding cand ex_candidates by (simp add: ex_fs_def)
  with h2 dir have sel: "select_preload_file ex_fs ?a = ''/opt/netbox-preload/old.gz''"
    by (simp add: select_preload_file_def next_iter_def)
  have ne: "preload_candidates ex_fs ?a \<noteq> []" by (simp add: cand ex_candidates)
  have reach: "reaches_load env_ok" by (simp add: reaches_load_def env_ok_def)
  have ld: "load_completed (env_ok LoadBackup)" by (simp add: env_ok_def)
  from missing_explicit_backup_falls_back [OF h1 h2, of env_createdb_fails ex_nb ex_world] dir ne
  have "restore_phase ex_fs env_createdb_fails ?a
       = (Some (select_preload_file ex_fs ?a),
          restore env_createdb_fails ex_fs ?a (select_preload_file ex_fs ?a))"
    and b: "main ex_fs env_createdb_fails ex_nb ?a ex_world
       = Some (finish ex_fs env_createdb_fails ?a ex_world)"
    and c: "\<not> reconciler_ran (finish ex_fs env_createdb_fails ?a ex_world)"
    by blast+
  with sel have a: "restore_phase ex_fs env_createdb_fails ?a
       = (Some ''/opt/netbox-preload/old.gz'',
          restore env_createdb_fails ex_fs ?a ''/opt/netbox-preload/old.gz'')"
    by simp
  from missing_explicit_backup_falls_back [OF h1 h2, of env_ok ex_nb ex_world] dir ne reach
  have "loaded_from (snd (restore_phase ex_fs env_ok ?a)) = Some (select_preload_file ex_fs ?a)"
    and "preloadDatabaseSuccess (snd (restore_phase ex_fs env_ok ?a))
           = load_completed (env_ok LoadBackup)"
    by blast+
  with sel ld
  have d: "loaded_from (snd (restore_phase ex_fs env_ok ?a)) = Some ''/opt/netbox-preload/old.gz''"
    and e: "preloadDatabaseSuccess (snd (restore_phase ex_fs env_ok ?a))"
    by simp_all
  from h1 h2 a b c d e show ?thesis by simp
qed

section \<open>Facts about the connectivity loop\<close>

lemma wait_for_connection_returns:
  "up nb (calls w + n) \<Longrightarrow> (\<forall>m<n. \<not> up nb (calls w + m)) \<Longrightarrow>
   wait_for_connection nb w =
     Some (w\<lparr>calls := calls w + n + 1, slept := slept w + 5 * n,
             log := log w @ replicate n InfoRetrying\<rparr>)"
proof (induction n arbitrary: w)
  case 0
  then show ?case
    by (subst wait_for_connection.simps) (simp add: tick_def)
next
  case (Suc n)
  let ?w = "sleep 5 (add_log InfoRetrying (tick w))"
  have c: "calls ?w = Suc (calls w)"
    by (simp add: sleep_def add_log_def tick_def)
  from Suc.prems have down: "\<not> up nb (calls w)" by (metis add.right_neutral zero_less_Suc)
  have "up nb (calls ?w + n)" using Suc.prems(1) by (simp add: c)
  moreover have "\<forall>m<n. \<not> up nb (calls ?w + m)"
    using Suc.prems(2) by (auto simp: c dest: spec [of _ "Suc _"])
  ultimately have "wait_for_connection nb ?w =
     Some (?w\<lparr>calls := calls ?w + n + 1, slept := slept ?w + 5 * n,
             log := log ?w @ replicate n InfoRetrying\<rparr>)"
    by (rule Suc.IH)
  with down show ?case
    by (subst wait_for_connection.simps)
       (simp add: sleep_def add_log_def tick_def replicate_app_Cons_same)
qed

lemma wait_for_connection_Some_up:
  "wait_for_connection nb w = Some w' \<Longrightarrow> \<exists>n. up nb (calls w + n)"
proof (induction rule: wait_for_connection.raw_induct [rotated 1, consumes 1])
  case (1 f nb w w')
  show ?case
  proof (cases "up nb (calls w)")
    case True
    then show ?thesis by (metis add.right_neutral)
  next
    case False
    with 1(2) have "f nb (sleep 5 (add_log InfoRetrying (tick w))) = Some w'"
      by simp
    from 1(1) [OF this] obtain n where "up nb (calls (sleep 5 (add_log InfoRetrying (tick w))) + n)"
      by blast
    then have "up nb (calls w + Suc n)"
      by (simp add: sleep_def add_log_def tick_def)
    then show ?thesis ..
  qed
qed


lemma first_up:
  assumes "up nb (calls w + n)"
  obtains m where "up nb (calls w + m)" and "\<forall>i<m. \<not> up nb (calls w + i)"
proof -
  let ?P = "\<lambda>m. up nb (calls w + m)"
  have "?P (LEAST m. ?P m)" using assms by (rule LeastI)
  moreover have "\<forall>i<(LEAST m. ?P m). \<not> ?P i" using not_less_Least by blast
  ultimately show ?thesis using that by blast
qed

lemma wait_for_connection_resources:
  assumes "wait_for_connection nb w = Some w'"
  shows "resources w' = resources w" and "prefixes w' = prefixes w"
proof -
  from wait_for_connection_Some_up [OF assms] obtain n where "up nb (calls w + n)" ..
  then obtain m where "up nb (calls w + m)" "\<forall>i<m. \<not> up nb (calls w + i)"
    by (rule first_up)
  from wait_for_connection_returns [OF this] assms
  show "resources w' = resources w" and "prefixes w' = prefixes w" by auto
qed

lemma connectivity_gate_resources:
  "connectivity_gate nb a w = Some w' \<Longrightarrow> resources w' = resources w"
  by (auto simp: connectivity_gate_def wait_for_connection_resources split: if_splits)

lemma connectivity_gate_None:
  "connectivity_gate nb a w = None \<Longrightarrow> wait a \<and> (\<forall>n. \<not> up nb (calls w + n))"
proof -
  assume n: "connectivity_gate nb a w = None"
  then have w: "wait a" by (auto simp: connectivity_gate_def split: if_splits)
  have "\<not> up nb (calls w + n)" for n
  proof
    assume "up nb (calls w + n)"
    then obtain m where "up nb (calls w + m)" "\<forall>i<m. \<not> up nb (calls w + i)"
      by (rule first_up)
    from wait_for_connection_returns [OF this] n w show False
      by (simp add: connectivity_gate_def)
  qed
  with w show ?thesis by blast
qed

section \<open>Facts about the blocks of the reconciler\<close>

lemma keys_foldl_update:
  "fst ` set (foldl (\<lambda>d (k, v). AList.update k v d) d items) = fst ` set d \<union> fst ` set items"
proof (induction items arbitrary: d)
  case Nil
  then show ?case by simp
next
  case (Cons kv items)
  obtain k v where kv: "kv = (k, v)" by (cases kv)
  show ?case
    by (auto simp: kv Cons.IH dom_update)
qed

lemma keys_by_key: "set (dict_keys (by_key nb xs)) = h_key nb ` set xs"
  using keys_foldl_update [of "[]" "map (\<lambda>x. (h_key nb x, x)) xs"]
  by (simp add: dict_keys_def by_key_def dict_of_def image_image)

lemma api_all_resources [simp]: "resources (snd (api_all nb k w)) = resources w"
  by (simp add: api_all_def tick_def)

lemma api_object_types_resources [simp]: "resources (snd (api_object_types nb w)) = resources w"
  by (simp add: api_object_types_def tick_def)

lemma api_all_Inr: "api_all nb k w = (Inr xs, w') \<Longrightarrow> xs = resources w k \<and> resources w' = resources w"
  by (auto simp: api_all_def tick_def split: if_splits)

lemma api_all_Inl: "api_all nb k w = (Inl e, w') \<Longrightarrow> resources w' = resources w"
  by (auto simp: api_all_def tick_def split: if_splits)

lemma api_create_other:
  "k' \<noteq> k \<Longrightarrow> resources (snd (api_create nb k p w)) k' = resources w k'"
  by (simp add: api_create_def tick_def split: reply.splits)

lemma add_log_resources [simp]: "resources (add_log e w) = resources w"
  by (simp add: add_log_def)

lemma create_each_other:
  "k' \<noteq> k \<Longrightarrow> resources (snd (create_each nb k ps w)) k' = resources w k'"
proof (induction nb k ps w rule: create_each.induct)
  case (1 nb k w)
  then show ?case by simp
next
  case (2 nb k name e rest w)
  then show ?case by simp
next
  case (3 nb k name p rest w)
  obtain r w' where ac: "api_create nb k p w = (r, w')" by (cases "api_create nb k p w")
  have w': "resources w' k' = resources w k'"
    using api_create_other [OF "3.prems", of nb p w] by (simp add: ac)
  show ?case
    using "3.IH" [OF ac [symmetric]] "3.prems" w' ac
    by (cases r) (auto split: exn.splits)
qed

lemma reconcile_kind_frame:
  assumes "k' \<noteq> k \<or> (set desired \<subseteq> h_key nb ` set (resources w k) \<and> payloads [] = [])"
  shows "resources (snd (reconcile_kind nb k desired payloads w)) k' = resources w k'"
proof -
  obtain r1 w1 where a1: "api_all nb k w = (r1, w1)" by (cases "api_all nb k w")
  show ?thesis
  proof (cases r1)
    case (Inl e)
    with a1 api_all_Inl [of nb k w e w1] show ?thesis
      by (simp add: reconcile_kind_def)
  next
    case (Inr existing)
    with a1 api_all_Inr [of nb k w existing w1]
    have ex: "existing = resources w k" and r1: "resources w1 = resources w" by simp_all
    let ?missing = "filter (\<lambda>x. x \<notin> set (dict_keys (by_key nb existing))) desired"
    obtain r2 w2 where c2: "create_each nb k (payloads ?missing) w1 = (r2, w2)"
      by (cases "create_each nb k (payloads ?missing) w1")
    have r2: "resources w2 k' = resources w k'"
    proof (cases "k' \<noteq> k")
      case True
      from create_each_other [OF True, of nb "payloads ?missing" w1] c2 r1 show ?thesis by simp
    next
      case False
      with assms have "set desired \<subseteq> h_key nb ` set (resources w k)" "payloads [] = []" by simp_all
      then have "?missing = []" "payloads [] = []"
        by (auto simp: keys_by_key ex filter_empty_conv)
      then have "create_each nb k (payloads ?missing) w1 = (None, w1)" by simp
      with c2 r1 show ?thesis by simp
    qed
    obtain r3 w3 where a3: "api_all nb k w2 = (r3, w3)" by (cases "api_all nb k w2")
    have r3: "resources w3 = resources w2"
      using a3 api_all_resources [of nb k w2] by simp
    show ?thesis
      using a1 Inr c2 a3 r2 r3
      by (simp add: reconcile_kind_def Let_def split: option.splits sum.splits)
  qed
qed

lemma default_permissions_names:
  "(k, v) \<in> set (DEFAULT_PERMISSIONS a) \<Longrightarrow> perm_name v = k"
  by (auto simp: DEFAULT_PERMISSIONS_def dict_of_def split: if_splits)

lemma reconcile_permissions_frame:
  assumes "k' \<noteq> Permissions \<or>
           set (dict_keys (DEFAULT_PERMISSIONS a)) \<subseteq> h_key nb ` set (resources w Permissions)"
  shows "resources (snd (reconcile_permissions nb a groups w)) k' = resources w k'"
proof -
  obtain r0 w0 where a0: "api_object_types nb w = (r0, w0)" by (cases "api_object_types nb w")
  have r0: "resources w0 = resources w"
    using a0 api_object_types_resources [of nb w] by simp
  show ?thesis
  proof (cases r0)
    case (Inl e)
    with a0 r0 show ?thesis by (simp add: reconcile_permissions_def)
  next
    case types: (Inr allObjectTypeNames)
    obtain r1 w1 where a1: "api_all nb Permissions w0 = (r1, w1)"
      by (cases "api_all nb Permissions w0")
    show ?thesis
    proof (cases r1)
      case (Inl e)
      with a0 types a1 api_all_Inl [of nb Permissions w0 e w1] r0 show ?thesis
        by (simp add: reconcile_permissions_def)
    next
      case (Inr existing)
      with a1 api_all_Inr [of nb Permissions w0 existing w1] r0
      have ex: "existing = resources w Permissions" and r1: "resources w1 = resources w"
        by simp_all
      let ?missing = "dict_of (filter
                 (\<lambda>(k, v). perm_name v \<noteq> [] \<and> perm_name v \<notin> set (dict_keys (by_key nb existing)))
                 (DEFAULT_PERMISSIONS a))"
      let ?todo = "map (\<lambda>(permName, permConfig).
                     (perm_name permConfig, permission_payload nb groups allObjectTypeNames permConfig))
                     ?missing"
      obtain r2 w2 where c2: "create_each nb Permissions ?todo w1 = (r2, w2)"
        by (cases "create_each nb Permissions ?todo w1")
      have r2: "resources w2 k' = resources w k'"
      proof (cases "k' \<noteq> Permissions")
        case True
        from create_each_other [OF True, of nb ?todo w1] c2 r1 show ?thesis by simp
      next
        case False
        with assms have sub:
          "set (dict_keys (DEFAULT_PERMISSIONS a)) \<subseteq> h_key nb ` set (resources w Permissions)"
          by simp
        have "filter (\<lambda>(k, v). perm_name v \<noteq> [] \<and> perm_name v \<notin> set (dict_keys (by_key nb existing)))
                 (DEFAULT_PERMISSIONS a) = []"
        proof (rule filter_False, clarify)
          fix k v
          assume kv: "(k, v) \<in> set (DEFAULT_PERMISSIONS a)"
            and "perm_name v \<notin> set (dict_keys (by_key nb existing))"
          from kv have "k \<in> set (dict_keys (DEFAULT_PERMISSIONS a))"
            by (force simp: dict_keys_def)
          with sub default_permissions_names [OF kv]
          have "perm_name v \<in> h_key nb ` set (resources w Permissions)" by blast
          with \<open>perm_name v \<notin> set (dict_keys (by_key nb existing))\<close> show False
            by (simp add: keys_by_key ex)
        qed
        then have "?todo = []" by (simp add: dict_of_def)
        then have "create_each nb Permissions ?todo w1 = (None, w1)" by simp
        with c2 r1 show ?thesis by simp
      qed
      obtain r3 w3 where a3: "api_all nb Permissions w2 = (r3, w3)"
        by (cases "api_all nb Permissions w2")
      have r3: "resources w3 = resources w2"
        using a3 api_all_resources [of nb Permissions w2] by simp
      show ?thesis
        using a0 types a1 Inr c2 a3 r2 r3
        by (simp add: reconcile_permissions_def Let_def split: option.splits sum.splits)
    qed
  qed
qed

lemma migrate_prefixes_resources [simp]: "resources (migrate_prefixes nb w) = resources w"
  by (simp add: migrate_prefixes_def tick_def Let_def split: prod.splits)

lemma reconcile_all_frame:
  assumes "set (desired_names a k) \<subseteq> h_key nb ` set (resources w k)"
  shows "resources (reconcile_all nb a w) k = resources w k"
proof -
  obtain groups w1 where b1: "reconcile_groups nb a w = (groups, w1)"
    by (cases "reconcile_groups nb a w")
  obtain perms w2 where b2: "reconcile_permissions nb a groups w1 = (perms, w2)"
    by (cases "reconcile_permissions nb a groups w1")
  obtain manufs w3 where b3: "reconcile_manufacturers nb a w2 = (manufs, w3)"
    by (cases "reconcile_manufacturers nb a w2")
  obtain rls w4 where b4: "reconcile_roles nb a w3 = (rls, w4)"
    by (cases "reconcile_roles nb a w3")
  obtain dts w5 where b5: "reconcile_device_types nb a manufs w4 = (dts, w5)"
    by (cases "reconcile_device_types nb a manufs w4")
  obtain sts w6 where b6: "reconcile_sites nb a w5 = (sts, w6)"
    by (cases "reconcile_sites nb a w5")
  have s1: "resources w1 k = resources w k"
    using reconcile_kind_frame [of k Groups "[staffGroupName a, defaultGroupName a]" nb w
        "map (\<lambda>groupName. (groupName, Inr (GroupPayload groupName)))"] assms b1
    by (cases k) (simp_all add: reconcile_groups_def desired_names_def)
  have s2: "resources w2 k = resources w1 k"
    using reconcile_permissions_frame [of k a nb w1 groups] assms b2 s1
    by (cases k) (simp_all add: desired_names_def)
  have s3: "resources w3 k = resources w2 k"
    using reconcile_kind_frame [of k Manufacturers "manufacturers a" nb w2
        "map (\<lambda>manufacturerName.
          (manufacturerName, Inr (ManufacturerPayload manufacturerName (slugify nb manufacturerName))))"]
      assms b3 s1 s2
    by (cases k) (simp_all add: reconcile_manufacturers_def desired_names_def)
  have s4: "resources w4 k = resources w3 k"
    using reconcile_kind_frame [of k Roles "roles a" nb w3
        "\<lambda>missing. map (\<lambda>(i, roleName).
          (roleName, Inr (RolePayload roleName (slugify nb roleName) (rand_color nb i))))
          (enumerate 0 missing)"]
      assms b4 s1 s2 s3
    by (cases k) (simp_all add: reconcile_roles_def desired_names_def)
  have s5: "resources w5 k = resources w4 k"
    using reconcile_kind_frame [of k DeviceTypes "deviceTypes a" nb w4
        "map (\<lambda>deviceTypeModel.
          (deviceTypeModel,
           case device_type_create_payload (slugify nb) (h_id nb) (h_lt nb) manufs deviceTypeModel of
             Inl e \<Rightarrow> Inl e
           | Inr d \<Rightarrow> Inr (DeviceTypePayload d)))"]
      assms b5 s1 s2 s3 s4
    by (cases k) (simp_all add: reconcile_device_types_def desired_names_def)
  have s6: "resources w6 k = resources w5 k"
    using reconcile_kind_frame [of k Sites "netboxSites a" nb w5
        "map (\<lambda>siteName. (siteName, Inr (SitePayload siteName (slugify nb siteName))))"]
      assms b6 s1 s2 s3 s4 s5
    by (cases k) (simp_all add: reconcile_sites_def desired_names_def)
  show ?thesis
    using b1 b2 b3 b4 b5 b6 s1 s2 s3 s4 s5 s6
    by (simp add: reconcile_all_def)
qed

section \<open>Running the reconciler again\<close>

text \<open>
  C7.  In an API state in which the desired names of a kind exist (by natural key), a
  run of the reconciler, whatever the server answers during it, leaves the resources of
  that kind as they were: nothing is created for them.  This holds of the blocks, and of
  the reconciler with its connectivity loop, which either returns such a state or does
  not return at all, the latter only when waiting is enabled and the API is never reached.
\<close>

theorem reconciler_keeps_existing_names:
  assumes "set (desired_names a k) \<subseteq> h_key nb ` set (resources w k)"
  shows "resources (reconcile_all nb a w) k = resources w k
       \<and> (case reconciler nb a w of
            Some w' \<Rightarrow> resources w' k = resources w k
          | None \<Rightarrow> wait a \<and> (\<forall>n. \<not> up nb (calls w + n)))"
proof
  show "resources (reconcile_all nb a w) k = resources w k"
    by (rule reconcile_all_frame [OF assms])
  show "case reconciler nb a w of
            Some w' \<Rightarrow> resources w' k = resources w k
          | None \<Rightarrow> wait a \<and> (\<forall>n. \<not> up nb (calls w + n))"
  proof (cases "connectivity_gate nb a w")
    case None
    from connectivity_gate_None [OF None] None show ?thesis
      by (simp add: reconciler_def)
  next
    case (Some w0)
    from connectivity_gate_resources [OF Some] have r: "resources w0 = resources w" .
    with assms have "set (desired_names a k) \<subseteq> h_key nb ` set (resources w0 k)" by simp
    from reconcile_all_frame [OF this] r Some show ?thesis
      by (simp add: reconciler_def)
  qed
qed

theorem reconciler_keeps_existing_names_witness:
  "set (desired_names ex_args Manufacturers)
     \<subseteq> h_key ex_nb ` set (resources (ex_world\<lparr>resources := (\<lambda>k. [''Unspecified''])\<rparr>) Manufacturers)
   \<and> resources (reconcile_all ex_nb ex_args (ex_world\<lparr>resources := (\<lambda>k. [''Unspecified''])\<rparr>))
        Manufacturers = [''Unspecified'']"
proof -
  let ?w = "ex_world\<lparr>resources := (\<lambda>k. [''Unspecified''])\<rparr>"
  have h: "set (desired_names ex_args Manufacturers) \<subseteq> h_key ex_nb ` set (resources ?w Manufacturers)"
    by (simp add: desired_names_def ex_args_def ex_nb_def)
  from reconciler_keeps_existing_names [OF h] h show ?thesis by simp
qed

section \<open>The connectivity gate\<close>





section \<open>Classes whose bases are not simple names\<close>

lemma base_is_plugin_config_None:
  "base_is_plugin_config bases = None \<longleftrightarrow> \<not> list_all is_name bases"
proof (induction bases)
  case Nil
  then show ?case by simp
next
  case (Cons b bases)
  then show ?case by (cases b) (auto split: option.splits)
qed

lemma scan_classes_append:
  "list_all simple_bases pre \<Longrightarrow>
   scan_classes (pre @ rest) st = scan_classes rest (scan_classes pre st)"
proof (induction pre arbitrary: st)
  case Nil
  then show ?case by simp
next
  case (Cons c pre)
  show ?case
  proof (cases c)
    case (ClassDef cname bases body)
    with Cons.prems have "base_is_plugin_config bases \<noteq> None"
      by (simp add: base_is_plugin_config_None)
    then obtain bs where "base_is_plugin_config bases = Some bs" by auto
    with Cons ClassDef show ?thesis by simp
  qed (use Cons in simp_all)
qed

lemma scan_classes_keeps_names:
  "\<exists>new. pluginNames (scan_classes body st) = pluginNames st @ new"
proof (induction body st rule: scan_classes.induct)
  case (2 cname bases body rest st)
  show ?case
  proof (cases "base_is_plugin_config bases")
    case None
    then show ?thesis by simp
  next
    case (Some bs)
    with 2 show ?thesis by (cases "list_ex (\<lambda>b. b) bs") fastforce+
  qed
qed simp_all

text \<open>
  C10.  A file whose class definitions before some class have simple names as bases
  only, and that class has a base that is not a simple name: scanning the file gives
  what scanning the part before that class gives (so the names collected so far are
  kept, and nothing of that class or of the classes after it is collected), with one
  more error logged; and the scan goes on with the files that follow.
\<close>

theorem scan_stops_at_non_name_base:
  assumes "list_all simple_bases pre" and "\<not> list_all is_name bases"
  shows "scan_file (Module (pre @ ClassDef cname bases body # post)) st
           = (scan_file (Module pre) st)
               \<lparr>errors_logged := Suc (errors_logged (scan_file (Module pre) st))\<rparr>
       \<and> (\<exists>new. pluginNames (scan_file (Module pre) st) = pluginNames st @ new)
       \<and> scan_files (Module (pre @ ClassDef cname bases body # post) # files) st
           = scan_files files
               ((scan_file (Module pre) st)
                  \<lparr>errors_logged := Suc (errors_logged (scan_file (Module pre) st))\<rparr>)"
proof -
  from assms(2) have none: "base_is_plugin_config bases = None"
    by (simp add: base_is_plugin_config_None)
  have eq: "scan_file (Module (pre @ ClassDef cname bases body # post)) st
           = (scan_file (Module pre) st)
               \<lparr>errors_logged := Suc (errors_logged (scan_file (Module pre) st))\<rparr>"
    by (simp add: scan_file_def scan_classes_append [OF assms(1)] none)
  moreover have "\<exists>new. pluginNames (scan_file (Module pre) st) = pluginNames st @ new"
    using scan_classes_keeps_names [of pre st] by (simp add: scan_file_def)
  moreover have "scan_files (Module (pre @ ClassDef cname bases body # post) # files) st
           = scan_files files (scan_file (Module (pre @ ClassDef cname bases body # post)) st)"
    by (simp add: scan_files_def)
  ultimately show ?thesis by simp
qed

theorem scan_stops_at_non_name_base_witness:
  "list_all simple_bases [plugin_class ''A'' (Name ''PluginConfig'') ''plugin_a'']
   \<and> \<not> list_all is_name [OtherExpr ''module.PluginConfig'']
   \<and> scan_file ex_init_py scan_initial
       = \<lparr> pluginNames = [CStr ''plugin_a''], errors_logged = 1 \<rparr>
   \<and> scan_files [ex_init_py, Module [plugin_class ''D'' (Name ''PluginConfig'') ''plugin_d'']]
        scan_initial
       = \<lparr> pluginNames = [CStr ''plugin_a'', CStr ''plugin_d''], errors_logged = 1 \<rparr>"
proof -
  let ?pre = "[plugin_class ''A'' (Name ''PluginConfig'') ''plugin_a'']"
  let ?body = "[Assign [Name ''name''] (Constant (CStr ''plugin_b''))]"
  let ?post = "[plugin_class ''C'' (Name ''PluginConfig'') ''plugin_c'']"
  let ?d = "Module [plugin_class ''D'' (Name ''PluginConfig'') ''plugin_d'']"
  have h1: "list_all simple_bases ?pre" by (simp add: plugin_class_def)
  have h2: "\<not> list_all is_name [OtherExpr ''module.PluginConfig'']" by simp
  have fl: "ex_init_py = Module (?pre @ ClassDef ''B'' [OtherExpr ''module.PluginConfig''] ?body # ?post)"
    by (simp add: ex_init_py_def plugin_class_def)
  have pre: "scan_file (Module ?pre) scan_initial = \<lparr> pluginNames = [CStr ''plugin_a''], errors_logged = 0 \<rparr>"
    by (simp add: scan_file_def plugin_class_def scan_initial_def)
  from scan_stops_at_non_name_base [OF h1 h2, of "''B''" "?body" "?post" scan_initial "[?d]"]
  have a: "scan_file ex_init_py scan_initial = \<lparr> pluginNames = [CStr ''plugin_a''], errors_logged = 1 \<rparr>"
    and b: "scan_files [ex_init_py, ?d] scan_initial
            = scan_files [?d] \<lparr> pluginNames = [CStr ''plugin_a''], errors_logged = 1 \<rparr>"
    by (simp_all add: fl pre)
  have "scan_files [?d] \<lparr> pluginNames = [CStr ''plugin_a''], errors_logged = 1 \<rparr>
      = \<lparr> pluginNames = [CStr ''plugin_a'', CStr ''plugin_d''], errors_logged = 1 \<rparr>"
    by (simp add: scan_files_def scan_file_def plugin_class_def)
  with a b h1 h2 show ?thesis by simp
qed

section \<open>Rewriting the registration file\<close>

lemma visit_unchanged: "\<not> assigns_plugins s \<Longrightarrow> visit names s = s"
proof (induction names s rule: visit.induct)
  case (1 names targets node_value)
  then show ?case by (simp add: visit_Assign_def)
next
  case (2 names cname bases body)
  then have "map (visit names) body = body"
    by (intro map_idI) (simp add: list_ex_iff)
  then show ?case by simp
next
  case (3 names label blocks)
  have "map (map (visit names)) blocks = blocks"
  proof (rule map_idI)
    fix block assume b: "block \<in> set blocks"
    show "map (visit names) block = block"
    proof (rule map_idI)
      fix s assume s: "s \<in> set block"
      with b "3.prems" have "\<not> assigns_plugins s" by (auto simp: list_ex_iff)
      with "3.IH" b s show "visit names s = s" by blast
    qed
  qed
  then show ?case by simp
next
  case (4 names s)
  then show ?case by simp
qed

lemma string_constants_append:
  "string_constants (xs @ ys) = string_constants xs @ string_constants ys"
  by (induction xs rule: string_constants.induct) simp_all

lemma string_constants_map_Constant:
  "CStr s \<in> set ps \<Longrightarrow> s \<in> set (string_constants (map Constant ps))"
proof (induction ps)
  case Nil
  then show ?case by simp
next
  case (Cons p ps)
  then show ?case by (cases p) auto
qed

lemma visit_Assign_twice:
  assumes "list_all is_str names"
  shows "visit names (visit_Assign names targets node_value) = visit_Assign names targets node_value"
proof (cases "targets_plugins targets")
  case False
  then show ?thesis by (simp add: visit_Assign_def)
next
  case True
  show ?thesis
  proof (cases node_value)
    case (ListExpr elts)
    let ?added = "filter (\<lambda>plugin. plugin \<notin> set (map CStr (string_constants elts))) names"
    have "filter (\<lambda>plugin. plugin \<notin> set (map CStr (string_constants (elts @ map Constant ?added))))
            names = []"
    proof (rule filter_False, rule ballI)
      fix p assume p: "p \<in> set names"
      with assms obtain s where s: "p = CStr s"
        by (cases p) (auto simp: list_all_iff)
      show "\<not> p \<notin> set (map CStr (string_constants (elts @ map Constant ?added)))"
      proof (cases "s \<in> set (string_constants elts)")
        case True
        then show ?thesis by (simp add: s string_constants_append)
      next
        case False
        with p s have "CStr s \<in> set ?added" by auto
        from string_constants_map_Constant [OF this] show ?thesis
          by (simp add: s string_constants_append)
      qed
    qed
    with True ListExpr show ?thesis by (simp add: visit_Assign_def)
  qed (use True in \<open>simp_all add: visit_Assign_def\<close>)
qed

lemma visit_twice: "list_all is_str names \<Longrightarrow> visit names (visit names s) = visit names s"
proof (induction names s rule: visit.induct)
  case (1 names targets node_value)
  then show ?case by (simp add: visit_Assign_twice)
next
  case (2 names cname bases body)
  then show ?case by simp
next
  case (3 names label blocks)
  then show ?case by simp
next
  case (4 names s)
  then show ?case by simp
qed

lemma ast_parse_unparse [simp]: "ast_parse (ast_unparse body) = body"
  by (induction body) (simp_all add: ast_unparse_def)

lemma missing_from_existing:
  "missing_from elts plugin \<longleftrightarrow> plugin \<notin> set (map CStr (string_constants elts))"
  by (cases plugin) auto

lemma visit_Assign_plugins_list:
  "visit names (Assign (Name ''PLUGINS'' # ts) (ListExpr elts))
     = Assign (Name ''PLUGINS'' # ts) (ListExpr (elts @ map Constant (missing_names names elts)))"
proof -
  have "filter (\<lambda>plugin. plugin \<notin> set (map CStr (string_constants elts))) names
          = missing_names names elts"
    unfolding missing_names_def by (rule filter_cong) (simp_all add: missing_from_existing)
  then show ?thesis
    by (simp add: visit_Assign_def targets_plugins_def)
qed

text \<open>
  C1, as the code has it by design.  The statements of the file are visited in place:
  the rewritten tree starts with the images of the original statements.  An assignment
  whose first target is \<^verbatim>\<open>PLUGINS\<close> and whose value is a list display keeps its
  elements, in their order, and gets appended the discovered names that are missing
  from it: a discovered string is appended exactly when it is not among the string
  constants of the list, a discovered constant that is not a string always.  A
  statement that holds no assignment to \<^verbatim>\<open>PLUGINS\<close> stays as it is.  When all the
  discovered names are strings, visiting once more appends nothing.  The file is written
  back from the tree (so without its comments and layout) when some name was
  discovered, and is left alone otherwise.
\<close>

theorem registration_update:
  "take (length body) (fst (update_plugins_tree names body)) = map (visit names) body
   \<and> visit names (Assign (Name ''PLUGINS'' # ts) (ListExpr elts))
       = Assign (Name ''PLUGINS'' # ts) (ListExpr (elts @ map Constant (missing_names names elts)))
   \<and> (CStr name \<in> set (missing_names names elts)
        \<longleftrightarrow> CStr name \<in> set names \<and> name \<notin> set (string_constants elts))
   \<and> (CNonStr v \<in> set (missing_names names elts) \<longleftrightarrow> CNonStr v \<in> set names)
   \<and> (\<not> assigns_plugins s \<longrightarrow> visit names s = s)
   \<and> (list_all is_str names \<longrightarrow> visit names (visit names s) = visit names s)
   \<and> (names \<noteq> [] \<longrightarrow>
        ast_parse (register_plugins names source)
          = fst (update_plugins_tree names (ast_parse source)))
   \<and> register_plugins [] source = source"
proof (intro conjI impI)
  show "take (length body) (fst (update_plugins_tree names body)) = map (visit names) body"
    by (simp add: update_plugins_tree_def)
  show "visit names (Assign (Name ''PLUGINS'' # ts) (ListExpr elts))
       = Assign (Name ''PLUGINS'' # ts) (ListExpr (elts @ map Constant (missing_names names elts)))"
    by (rule visit_Assign_plugins_list)
  show "CStr name \<in> set (missing_names names elts)
        \<longleftrightarrow> CStr name \<in> set names \<and> name \<notin> set (string_constants elts)"
    by (auto simp: missing_names_def)
  show "CNonStr v \<in> set (missing_names names elts) \<longleftrightarrow> CNonStr v \<in> set names"
    by (auto simp: missing_names_def)
  show "visit names s = s" if "\<not> assigns_plugins s"
    using that by (rule visit_unchanged)
  show "visit names (visit names s) = visit names s" if "list_all is_str names"
    using that by (rule visit_twice)
  show "ast_parse (register_plugins names source)
          = fst (update_plugins_tree names (ast_parse source))" if "names \<noteq> []"
    using that by (simp add: register_plugins_def)
  show "register_plugins [] source = source"
    by (simp add: register_plugins_def)
qed

theorem registration_update_witness:
  "visit ex_discovered (ex_plugins_assign [''existing_plugin''])
     = ex_plugins_assign [''existing_plugin'', ''new_plugin'']
   \<and> visit ex_discovered (OtherStmt ''DEBUG = False'') = OtherStmt ''DEBUG = False''
   \<and> visit ex_discovered (visit ex_discovered (ex_plugins_assign [''existing_plugin'']))
     = ex_plugins_assign [''existing_plugin'', ''new_plugin'']
   \<and> take 1 (ast_parse (register_plugins ex_discovered ex_plugins_py))
     = [ex_plugins_assign [''existing_plugin'', ''new_plugin'']]"
proof -
  note t = registration_update
    [of "[ex_plugins_assign [''existing_plugin'']]" ex_discovered "[]"
        "[Constant (CStr ''existing_plugin'')]" "''new_plugin''" "''5''"
        "OtherStmt ''DEBUG = False''" ex_plugins_py]
  note t' = registration_update
    [of "[ex_plugins_assign [''existing_plugin'']]" ex_discovered "[]"
        "[Constant (CStr ''existing_plugin'')]" "''new_plugin''" "''5''"
        "ex_plugins_assign [''existing_plugin'']" ex_plugins_py]
  have m: "missing_names ex_discovered [Constant (CStr ''existing_plugin'')] = [CStr ''new_plugin'']"
    by (simp add: missing_names_def ex_discovered_def)
  have a: "visit ex_discovered (ex_plugins_assign [''existing_plugin''])
     = ex_plugins_assign [''existing_plugin'', ''new_plugin'']"
    using t by (simp add: ex_plugins_assign_def m)
  have "\<not> assigns_plugins (OtherStmt ''DEBUG = False'')" by simp
  with t have b: "visit ex_discovered (OtherStmt ''DEBUG = False'') = OtherStmt ''DEBUG = False''"
    by blast
  have "list_all is_str ex_discovered" by (simp add: ex_discovered_def)
  with t' have "visit ex_discovered (visit ex_discovered (ex_plugins_assign [''existing_plugin'']))
     = visit ex_discovered (ex_plugins_assign [''existing_plugin''])" by blast
  with a have c: "visit ex_discovered (visit ex_discovered (ex_plugins_assign [''existing_plugin'']))
     = ex_plugins_assign [''existing_plugin'', ''new_plugin'']"
    by simp
  have "ex_discovered \<noteq> []" by (simp add: ex_discovered_def)
  with t have "ast_parse (register_plugins ex_discovered ex_plugins_py)
          = fst (update_plugins_tree ex_discovered (ast_parse ex_plugins_py))" by blast
  moreover have "ast_parse ex_plugins_py = [ex_plugins_assign [''existing_plugin'']]"
    by (simp add: ex_plugins_py_def)
  moreover have "take 1 (fst (update_plugins_tree ex_discovered [ex_plugins_assign [''existing_plugin'']]))
      = map (visit ex_discovered) [ex_plugins_assign [''existing_plugin'']]"
    using t by simp
  ultimately have d: "take 1 (ast_parse (register_plugins ex_discovered ex_plugins_py))
     = [ex_plugins_assign [''existing_plugin'', ''new_plugin'']]"
    using a by simp
  from a b c d show ?thesis by simp
qed

text \<open>
  C1 as the specification states it fails for the comments: the comment above the list
  is in the file before the rewrite and is not in the rewritten file.
\<close>

theorem registration_comment_counterexample:
  "Comment ''# active plugins'' \<in> set ex_plugins_py
   \<and> Comment ''# active plugins'' \<notin> set (register_plugins ex_discovered ex_plugins_py)"
  by (simp add: ex_plugins_py_def ex_discovered_def register_plugins_def ast_unparse_def
      update_plugins_tree_def)

text \<open>
  The same example shows what the test of the local \<^verbatim>\<open>pluginsListFound\<close> does: the
  list of the file is extended, the module's variable is set, and a second assignment
  to \<^verbatim>\<open>PLUGINS\<close> is appended all the same.
\<close>

lemma registration_example_second_assignment:
  "update_plugins_tree ex_discovered (ast_parse ex_plugins_py)
     = ([ex_plugins_assign [''existing_plugin'', ''new_plugin''],
         ex_plugins_assign [''existing_plugin'', ''new_plugin'']], True)"
  by (simp add: update_plugins_tree_def ex_plugins_py_def ex_plugins_assign_def ex_discovered_def
      visit_Assign_def targets_plugins_def)

text \<open>
  A discovered constant that is not a string is appended at every visit, also when the
  list holds it already.
\<close>

lemma registration_non_string_appended_again:
  "visit [CNonStr ''5''] (visit [CNonStr ''5''] (ex_plugins_assign []))
     = Assign [Name ''PLUGINS''] (ListExpr [Constant (CNonStr ''5''), Constant (CNonStr ''5'')])"
  by (simp add: ex_plugins_assign_def visit_Assign_def targets_plugins_def)

section \<open>The decision of the install gate\<close>

lemma set_foldl_update_subset:
  "set (foldl (\<lambda>d (k, v). AList.update k v d) d items) \<subseteq> set d \<union> set items"
proof (induction items arbitrary: d)
  case Nil
  then show ?case by simp
next
  case (Cons kv items)
  obtain k v where kv: "kv = (k, v)" by (cases kv)
  have "set (AList.update k v d) \<subseteq> insert (k, v) (set d)"
    by (induction d) auto
  with Cons.IH [of "AList.update k v d"] show ?case
    by (auto simp: kv)
qed

lemma set_dict_of_subset: "set (dict_of items) \<subseteq> set items"
  using set_foldl_update_subset [of "[]" items] by (simp add: dict_of_def)

lemma needs_newer_well_formed:
  assumes "name \<noteq> None" "\<exists>v. version = Some v \<and> Version v \<noteq> None"
    and "list_all (\<lambda>(n, v). Version v \<noteq> None) preinstalled"
  shows "needs_newer Version preinstalled name version
           = Inr (new_or_newer Version preinstalled (name, version))"
proof -
  from assms(1,2) obtain n v new where nv: "name = Some n" "version = Some v" "Version v = Some new"
    by auto
  show ?thesis
  proof (cases "map_of preinstalled n")
    case None
    with nv show ?thesis by (simp add: needs_newer_def new_or_newer_def)
  next
    case (Some inst)
    then have "(n, inst) \<in> set preinstalled" by (rule map_of_SomeD)
    with assms(3) obtain old where "Version inst = Some old"
      by (auto simp: list_all_iff)
    with nv Some show ?thesis by (simp add: needs_newer_def new_or_newer_def)
  qed
qed

lemma names_needing_install_well_formed:
  assumes "list_all (\<lambda>(n, v). Version v \<noteq> None) preinstalled"
    and "list_all (\<lambda>(name, version). truthy name \<and> (\<exists>v. version = Some v \<and> Version v \<noteq> None)) d"
  shows "\<exists>names. names_needing_install Version preinstalled d = Inr names
           \<and> list_all truthy names
           \<and> (names \<noteq> [] \<longleftrightarrow> list_ex (new_or_newer Version preinstalled) d)"
  using assms(2)
proof (induction d)
  case Nil
  then show ?case by simp
next
  case (Cons x d)
  obtain name version where x: "x = (name, version)" by (cases x)
  from Cons.prems have t: "truthy name" and v: "\<exists>v. version = Some v \<and> Version v \<noteq> None"
    and rest: "list_all (\<lambda>(name, version). truthy name \<and> (\<exists>v. version = Some v \<and> Version v \<noteq> None)) d"
    by (simp_all add: x)
  from t have "name \<noteq> None" by (cases name) (simp_all add: truthy_def)
  from needs_newer_well_formed [OF this v assms(1)]
  have nn: "needs_newer Version preinstalled name version
           = Inr (new_or_newer Version preinstalled (name, version))" .
  from Cons.IH [OF rest] obtain names where
    "names_needing_install Version preinstalled d = Inr names" "list_all truthy names"
    "names \<noteq> [] \<longleftrightarrow> list_ex (new_or_newer Version preinstalled) d" by blast
  with nn t show ?case by (simp add: x)
qed

lemma truthy_names_any: "list_all truthy names \<Longrightarrow> list_ex truthy names \<longleftrightarrow> names \<noteq> []"
  by (cases names) simp_all

lemma wouldInstallInfo_well_formed:
  assumes "list_all (well_formed_item Version) items"
  shows "list_all (\<lambda>(name, version). truthy name \<and> (\<exists>v. version = Some v \<and> Version v \<noteq> None))
           (wouldInstallInfo items)"
proof -
  have item: "truthy (metadata_name i) \<and> (\<exists>v. metadata_version i = Some v \<and> Version v \<noteq> None)"
    if "i \<in> set items" for i
  proof -
    from that assms have wf: "well_formed_item Version i" by (simp add: list_all_iff)
    then obtain n where n: "metadata_name i = Some n" "n \<noteq> []"
      by (cases "metadata_name i") (simp_all add: well_formed_item_def)
    from wf obtain v where v: "metadata_version i = Some v" "Version v \<noteq> None"
      by (cases "metadata_version i") (simp_all add: well_formed_item_def)
    from n v show ?thesis by (simp add: truthy_def)
  qed
  have "x \<in> set (map (\<lambda>i. (metadata_name i, metadata_version i)) items) \<Longrightarrow>
        (case x of (name, version) \<Rightarrow> truthy name \<and> (\<exists>v. version = Some v \<and> Version v \<noteq> None))" for x
    using item by auto
  with set_dict_of_subset [of "map (\<lambda>i. (metadata_name i, metadata_version i)) items"]
  show ?thesis
    unfolding wouldInstallInfo_def list_all_iff by blast
qed

text \<open>
  C8.  For a report as the package manager writes it, the gate decides that the
  installation is necessary exactly when the would-install map (name to version) of
  the report has an entry that is new or newer, versions being compared as versions
  (the map holds the items of the report, one by one, when no name is reported twice);
  when the dry run ends with a non-zero status or leaves no report file, the decision is
  that it is necessary, whatever else; and the installation runs exactly when it was
  decided necessary, its result being the success of the installation.
\<close>

theorem install_gate_decision:
  "(well_formed_report Version preinstalled items \<longrightarrow>
      pluginNeedsInstall Version preinstalled 0 True (Some items)
        = Inr (list_ex (new_or_newer Version preinstalled) (wouldInstallInfo items)))
   \<and> (distinct (map metadata_name items) \<longrightarrow>
      wouldInstallInfo items = map (\<lambda>i. (metadata_name i, metadata_version i)) items)
   \<and> (err \<noteq> 0 \<or> \<not> report_isfile \<longrightarrow>
      pluginNeedsInstall Version preinstalled err report_isfile dryRunReport = Inr True)
   \<and> (pluginNeedsInstall Version preinstalled err report_isfile dryRunReport = Inr needed \<longrightarrow>
      InstallPackageDirIfNeeded Version preinstalled err report_isfile dryRunReport install_err
        = Inr (needed \<and> install_err = 0))"
proof (intro conjI impI)
  assume wf: "well_formed_report Version preinstalled items"
  then have pre: "list_all (\<lambda>(n, v). Version v \<noteq> None) preinstalled"
    and its: "list_all (well_formed_item Version) items"
    by (simp_all add: well_formed_report_def)
  from names_needing_install_well_formed [OF pre wouldInstallInfo_well_formed [OF its]]
  obtain names where
    "names_needing_install Version preinstalled (wouldInstallInfo items) = Inr names"
    "list_all truthy names"
    "names \<noteq> [] \<longleftrightarrow> list_ex (new_or_newer Version preinstalled) (wouldInstallInfo items)"
    by blast
  then show "pluginNeedsInstall Version preinstalled 0 True (Some items)
        = Inr (list_ex (new_or_newer Version preinstalled) (wouldInstallInfo items))"
    by (simp add: pluginNeedsInstall_def truthy_names_any)
next
  assume "distinct (map metadata_name items)"
  then have "distinct (map fst (map (\<lambda>i. (metadata_name i, metadata_version i)) items))"
    by (simp add: comp_def)
  then show "wouldInstallInfo items = map (\<lambda>i. (metadata_name i, metadata_version i)) items"
    unfolding wouldInstallInfo_def by (rule dict_of_distinct)
next
  assume "err \<noteq> 0 \<or> \<not> report_isfile"
  then show "pluginNeedsInstall Version preinstalled err report_isfile dryRunReport = Inr True"
    by (auto simp: pluginNeedsInstall_def)
next
  assume "pluginNeedsInstall Version preinstalled err report_isfile dryRunReport = Inr needed"
  then show "InstallPackageDirIfNeeded Version preinstalled err report_isfile dryRunReport install_err
        = Inr (needed \<and> install_err = 0)"
    by (simp add: InstallPackageDirIfNeeded_def)
qed

lemma ex_release_versions:
  "release_version ''1.0.0'' = Some [1]"
  "release_version ''1.1.0'' = Some [1, 1]"
  "release_version ''1.9.0'' = Some [1, 9]"
  "release_version ''1.10.0'' = Some [1, 10]"
  by code_simp+

theorem install_gate_decision_witness:
  "well_formed_report release_version [(''foo'', ''1.0.0'')] (report_of ''foo'' ''1.1.0'')
   \<and> pluginNeedsInstall release_version [(''foo'', ''1.0.0'')] 0 True (Some (report_of ''foo'' ''1.0.0''))
       = Inr False
   \<and> pluginNeedsInstall release_version [(''foo'', ''1.0.0'')] 0 True (Some (report_of ''foo'' ''1.1.0''))
       = Inr True
   \<and> pluginNeedsInstall release_version [(''foo'', ''1.0.0'')] 0 True (Some (report_of ''bar'' ''1.0.0''))
       = Inr True
   \<and> pluginNeedsInstall release_version [(''foo'', ''1.9.0'')] 0 True (Some (report_of ''foo'' ''1.10.0''))
       = Inr True
   \<and> ''1.10.0'' < ''1.9.0''
   \<and> pluginNeedsInstall release_version [(''foo'', ''1.0.0'')] 1 True None = Inr True
   \<and> InstallPackageDirIfNeeded release_version [(''foo'', ''1.0.0'')] 1 True None 0 = Inr True"
proof -
  let ?pre = "[(''foo'', ''1.0.0'')]"
  have wf: "well_formed_report release_version ?pre (report_of n v)"
    if "n \<noteq> []" "release_version v \<noteq> None" for n v
    using that by (simp add: well_formed_report_def well_formed_item_def report_of_def ex_release_versions)
  have wf9: "well_formed_report release_version [(''foo'', ''1.9.0'')] (report_of ''foo'' ''1.10.0'')"
    by (simp add: well_formed_report_def well_formed_item_def report_of_def ex_release_versions)
  have info: "wouldInstallInfo (report_of n v) = [(Some n, Some v)]" for n v
    by (simp add: wouldInstallInfo_def report_of_def dict_of_def)
  note t = install_gate_decision
  have a: "pluginNeedsInstall release_version ?pre 0 True (Some (report_of ''foo'' ''1.0.0'')) = Inr False"
    using t [of release_version ?pre "report_of ''foo'' ''1.0.0''"] wf [of "''foo''" "''1.0.0''"]
    by (simp add: info new_or_newer_def ex_release_versions)
  have b: "pluginNeedsInstall release_version ?pre 0 True (Some (report_of ''foo'' ''1.1.0'')) = Inr True"
    using t [of release_version ?pre "report_of ''foo'' ''1.1.0''"] wf [of "''foo''" "''1.1.0''"]
    by (simp add: info new_or_newer_def ex_release_versions)
  have c: "pluginNeedsInstall release_version ?pre 0 True (Some (report_of ''bar'' ''1.0.0'')) = Inr True"
    using t [of release_version ?pre "report_of ''bar'' ''1.0.0''"] wf [of "''bar''" "''1.0.0''"]
    by (simp add: info new_or_newer_def ex_release_versions)
  have d: "pluginNeedsInstall release_version [(''foo'', ''1.9.0'')] 0 True (Some (report_of ''foo'' ''1.10.0''))
       = Inr True"
    using t [of release_version "[(''foo'', ''1.9.0'')]" "report_of ''foo'' ''1.10.0''"] wf9
    by (simp add: info new_or_newer_def ex_release_versions)
  have e: "''1.10.0'' < ''1.9.0''" by simp
  have f: "pluginNeedsInstall release_version ?pre 1 True None = Inr True"
    using t [of release_version ?pre "[]" 1 True None] by simp
  have g: "InstallPackageDirIfNeeded release_version ?pre 1 True None 0 = Inr True"
    using t [of release_version ?pre "[]" 1 True None True 0] f by simp
  from wf [of "''foo''" "''1.1.0''"] a b c d e f g show ?thesis
    by (simp add: ex_release_versions)
qed

end
